theory Spec2Isabelle
  imports Complex_Main "HOL-Library.Char_ord" "HOL-Library.List_Lexorder"
begin

section \<open>Embedding service\<close>

text \<open>
  Source: \<^verbatim>\<open>backend/services/embedding_service.py\<close>. A numpy vector is a list of
  numbers; floating-point numbers are read as reals. The sentence-transformer model
  is outside the repository: it is the parameter \<open>encode\<close>, one vector per text, and a
  batch is encoded text by text.
\<close>

type_synonym embedding = "real list"

definition dot :: "embedding \<Rightarrow> embedding \<Rightarrow> real" where
  "dot a b = sum_list (map2 (*) a b)"

definition linalg_norm :: "embedding \<Rightarrow> real" where
  "linalg_norm a = sqrt (sum_list (map (\<lambda>x. x * x) a))"

definition embed :: "(string \<Rightarrow> embedding) \<Rightarrow> string \<Rightarrow> embedding" where
  "embed encode txt = encode txt"

definition embed_batch :: "(string \<Rightarrow> embedding) \<Rightarrow> string list \<Rightarrow> embedding list" where
  "embed_batch encode texts = map encode texts"

definition similarity :: "embedding \<Rightarrow> embedding \<Rightarrow> real" where
  "similarity embedding1 embedding2 =
     (let norm1 = linalg_norm embedding1; norm2 = linalg_norm embedding2 in
      if norm1 = 0 \<or> norm2 = 0 then 0
      else dot embedding1 embedding2 / (norm1 * norm2))"

section \<open>Alignment service\<close>

text \<open>
  Source: \<^verbatim>\<open>backend/services/alignment_service.py\<close>. The vector store is not part of
  the sources at hand; \<open>find_covered_slides\<close> takes what \<^verbatim>\<open>get_slides\<close> returned:
  \<open>None\<close> for an unknown identifier, otherwise the stored slides.
\<close>

record slide =
  slide_index :: nat
  slide_text :: string
  slide_embedding :: embedding

definition similarity_threshold :: real where
  "similarity_threshold = 0.3"

text \<open>
  The first loop, \<^verbatim>\<open>for i in range(len(similarities))\<close>, with its two variables
  \<^verbatim>\<open>max_cumulative\<close> and \<^verbatim>\<open>best_index\<close> as the accumulator.
\<close>

fun cumulative_loop :: "real list \<Rightarrow> nat list \<Rightarrow> real \<times> int \<Rightarrow> real \<times> int" where
  "cumulative_loop similarities [] acc = acc"
| "cumulative_loop similarities (i # rest) (max_cumulative, best_index) =
     (let cumulative = sum_list (take (i + 1) similarities) in
      if cumulative > max_cumulative
      then cumulative_loop similarities rest (cumulative, int i)
      else cumulative_loop similarities rest (max_cumulative, best_index))"

text \<open>The second loop, \<^verbatim>\<open>for i, sim in enumerate(similarities)\<close>.\<close>

fun threshold_loop :: "(nat \<times> real) list \<Rightarrow> int \<Rightarrow> int" where
  "threshold_loop [] best_index = best_index"
| "threshold_loop ((i, sim) # rest) best_index =
     (if sim > similarity_threshold
      then threshold_loop rest (max best_index (int i))
      else threshold_loop rest best_index)"

text \<open>Lines 36 to 53: from the similarities to the returned index.\<close>

definition covered_index :: "real list \<Rightarrow> int" where
  "covered_index similarities =
     (case cumulative_loop similarities [0..<length similarities] (0, 0) of
        (max_cumulative, best_index) \<Rightarrow>
          threshold_loop (enumerate 0 similarities) best_index)"

definition find_covered_slides :: "slide list option \<Rightarrow> embedding \<Rightarrow> int" where
  "find_covered_slides slide_data notes_embedding =
     (case slide_data of
        None \<Rightarrow> 0
      | Some [] \<Rightarrow> 0
      | Some slides \<Rightarrow>
          covered_index
            (map (\<lambda>slide. similarity notes_embedding (slide_embedding slide)) slides))"

subsection \<open>The two heuristics as the specification words them\<close>

text \<open>
  The running sum of the similarities of segments \<open>0..i\<close>, the earliest index at which
  a list takes its maximum, and the largest index whose similarity exceeds the
  threshold (0 when there is none).
\<close>

definition running_sums :: "real list \<Rightarrow> real list" where
  "running_sums similarities =
     map (\<lambda>i. sum_list (take (Suc i) similarities)) [0..<length similarities]"

definition earliest_max_index :: "real list \<Rightarrow> nat" where
  "earliest_max_index xs = length (takeWhile (\<lambda>x. x \<noteq> Max (set xs)) xs)"

definition cumulative_best :: "real list \<Rightarrow> int" where
  "cumulative_best similarities =
     (if similarities = [] then 0
      else int (earliest_max_index (running_sums similarities)))"

definition indices_above :: "real list \<Rightarrow> nat list" where
  "indices_above similarities =
     filter (\<lambda>i. similarities ! i > similarity_threshold) [0..<length similarities]"

definition threshold_best :: "real list \<Rightarrow> int" where
  "threshold_best similarities =
     (if indices_above similarities = [] then 0
      else int (Max (set (indices_above similarities))))"

section \<open>Python strings and the regular expressions of the services\<close>

text \<open>
  A Python string is a list of characters, each read as the code point it carries
  (0 to 255); the character classes below are the ones Python's \<^verbatim>\<open>str\<close> methods and
  \<^verbatim>\<open>re\<close> module use on that range.
\<close>

definition code_point :: "char \<Rightarrow> nat" where
  "code_point c = of_char c"

text \<open>\<^verbatim>\<open>str.isspace\<close>, which is also \<^verbatim>\<open>\s\<close>.\<close>

definition isspace :: "char \<Rightarrow> bool" where
  "isspace c = (code_point c \<in> {9, 10, 11, 12, 13, 28, 29, 30, 31, 32, 133, 160})"

text \<open>\<^verbatim>\<open>\d\<close>, \<^verbatim>\<open>[A-Z]\<close>, \<^verbatim>\<open>[a-z]\<close>, \<^verbatim>\<open>[A-Za-z]\<close> and \<^verbatim>\<open>\w\<close>.\<close>

definition isdigit :: "char \<Rightarrow> bool" where
  "isdigit c = (48 \<le> code_point c \<and> code_point c \<le> 57)"

definition is_upper_az :: "char \<Rightarrow> bool" where
  "is_upper_az c = (65 \<le> code_point c \<and> code_point c \<le> 90)"

definition is_lower_az :: "char \<Rightarrow> bool" where
  "is_lower_az c = (97 \<le> code_point c \<and> code_point c \<le> 122)"

definition is_letter_az :: "char \<Rightarrow> bool" where
  "is_letter_az c = (is_upper_az c \<or> is_lower_az c)"

definition is_word_char :: "char \<Rightarrow> bool" where
  "is_word_char c =
     (let n = code_point c in
      isdigit c \<or> is_letter_az c \<or> n = 95 \<or>
      n \<in> {170, 178, 179, 181, 185, 186, 188, 189, 190} \<or>
      (192 \<le> n \<and> n \<le> 214) \<or> (216 \<le> n \<and> n \<le> 246) \<or> 248 \<le> n)"

text \<open>\<^verbatim>\<open>str.lower\<close>, \<^verbatim>\<open>str.strip\<close>, \<^verbatim>\<open>str.startswith\<close>, \<^verbatim>\<open>sub in s\<close>, \<^verbatim>\<open>sep.join\<close>.\<close>

definition lower_char :: "char \<Rightarrow> char" where
  "lower_char c =
     (let n = code_point c in
      if (65 \<le> n \<and> n \<le> 90) \<or> (192 \<le> n \<and> n \<le> 214) \<or> (216 \<le> n \<and> n \<le> 222)
      then char_of (n + 32) else c)"

definition lower :: "string \<Rightarrow> string" where
  "lower s = map lower_char s"

definition strip :: "string \<Rightarrow> string" where
  "strip s = rev (dropWhile isspace (rev (dropWhile isspace s)))"

fun startswith :: "string \<Rightarrow> string \<Rightarrow> bool" where
  "startswith [] s = True"
| "startswith (p # ps) [] = False"
| "startswith (p # ps) (c # cs) = (p = c \<and> startswith ps cs)"

fun contains :: "string \<Rightarrow> string \<Rightarrow> bool" where
  "contains sub [] = (sub = [])"
| "contains sub (c # cs) = (startswith sub (c # cs) \<or> contains sub cs)"

fun join :: "string \<Rightarrow> string list \<Rightarrow> string" where
  "join sep [] = []"
| "join sep [x] = x"
| "join sep (x # y # rest) = x @ sep @ join sep (y # rest)"

text \<open>
  \<^verbatim>\<open>re.split(r'[.!?]\s+', text)\<close>: a terminator followed by at least one white-space
  character ends the current piece, the whole run of white space is consumed, and the
  scan goes on after it. \<open>cur\<close> is the piece read so far.
\<close>

definition is_terminator :: "char \<Rightarrow> bool" where
  "is_terminator c = (c = CHR ''.'' \<or> c = CHR ''!'' \<or> c = CHR ''?'')"

function split_from :: "string \<Rightarrow> string \<Rightarrow> string list" where
  "split_from cur [] = [cur]"
| "split_from cur [c] = [cur @ [c]]"
| "split_from cur (c # d # rest) =
     (if is_terminator c \<and> isspace d
      then cur # split_from [] (dropWhile isspace rest)
      else split_from (cur @ [c]) (d # rest))"
  by pat_completeness auto
termination
  by (relation "measure (\<lambda>(cur, s). length s)")
     (auto simp: less_Suc_eq_le intro: le_trans [OF length_dropWhile_le])

definition re_split_sentences :: "string \<Rightarrow> string list" where
  "re_split_sentences txt = split_from [] txt"

text \<open>
  \<^verbatim>\<open>re.findall(r'\d+\.?\d*', s)\<close>: at a digit, the whole run of digits, one full stop
  if it follows, and the run of digits after it; the scan goes on after the match.
\<close>

function find_numbers :: "string \<Rightarrow> string list" where
  "find_numbers [] = []"
| "find_numbers (c # cs) =
     (if isdigit c then
        (let digits = c # takeWhile isdigit cs;
             after_digits = dropWhile isdigit cs;
             point = (if after_digits \<noteq> [] \<and> hd after_digits = CHR ''.'' then ''.'' else []);
             after_point = (if point = [] then after_digits else tl after_digits);
             fraction = takeWhile isdigit after_point
         in (digits @ point @ fraction) # find_numbers (dropWhile isdigit after_point))
      else find_numbers cs)"
  by pat_completeness auto
termination
proof (relation "measure length", goal_cases)
  case 1
  then show ?case by simp
next
  case (2 c cs digits after_digits point after_point fraction)
  have "length (dropWhile isdigit after_point) \<le> length after_point"
    by (rule length_dropWhile_le)
  also have "length after_point \<le> length after_digits"
    using 2 by (simp split: if_splits)
  also have "length after_digits \<le> length cs"
    using 2 by (simp add: length_dropWhile_le)
  finally show ?case by simp
next
  case (3 c cs)
  then show ?case by simp
qed

section \<open>Misconception detector\<close>

text \<open>
  Source: \<^verbatim>\<open>backend/services/misconception_detector.py\<close>. The language model is
  outside the repository: \<open>llm\<close> maps the note sentence, the lecture sentence and the
  first 1000 characters of the lecture to the text of the reply, or to \<open>None\<close> when the
  request raises. \<open>use_llm\<close> is the flag set by the constructor.
\<close>

definition contradiction_threshold :: real where
  "contradiction_threshold = 0.3"

definition split_into_sentences :: "string \<Rightarrow> string list" where
  "split_into_sentences txt =
     map strip (filter (\<lambda>s. length (strip s) > 10) (re_split_sentences txt))"

definition contradiction_words :: "(string \<times> string) list" where
  "contradiction_words =
     [(''not'', ''is''), (''no'', ''yes''), (''never'', ''always''),
      (''cannot'', ''can''), (''wrong'', ''correct''), (''incorrect'', ''correct'')]"

fun antonym_loop :: "string \<Rightarrow> string \<Rightarrow> (string \<times> string) list \<Rightarrow> real \<Rightarrow> real" where
  "antonym_loop note_lower lecture_lower [] contradiction_score = contradiction_score"
| "antonym_loop note_lower lecture_lower ((neg_word, pos_word) # rest) contradiction_score =
     (if contains neg_word note_lower \<and> contains pos_word lecture_lower
      then antonym_loop note_lower lecture_lower rest (contradiction_score + 0.3)
      else if contains pos_word note_lower \<and> contains neg_word lecture_lower
      then antonym_loop note_lower lecture_lower rest (contradiction_score + 0.3)
      else antonym_loop note_lower lecture_lower rest contradiction_score)"

definition check_contradiction :: "(string \<Rightarrow> embedding) \<Rightarrow> string \<Rightarrow> string \<Rightarrow> real" where
  "check_contradiction encode note_sentence lecture_sentence =
     (let note_lower = lower note_sentence;
          lecture_lower = lower lecture_sentence;
          contradiction_score = antonym_loop note_lower lecture_lower contradiction_words 0;
          note_numbers = find_numbers note_sentence;
          lecture_numbers = find_numbers lecture_sentence;
          contradiction_score =
            (if note_numbers \<noteq> [] \<and> lecture_numbers \<noteq> [] then
               if card (set note_numbers \<inter> set lecture_numbers) = 0 then
                 (let note_emb = embed encode note_sentence;
                      lecture_emb = embed encode lecture_sentence;
                      sim = similarity note_emb lecture_emb
                  in if sim > 0.6 then contradiction_score + 0.4 else contradiction_score)
               else contradiction_score
             else contradiction_score)
      in min contradiction_score 1)"

definition extract_correction :: "string \<Rightarrow> string" where
  "extract_correction lecture_sentence = take 200 lecture_sentence"

text \<open>
  \<^verbatim>\<open>_check_with_llm\<close>: a reply starting with YES is a misconception, its correction the
  text after the first vertical bar, or the first 150 characters of the lecture sentence
  when there is no bar; any exception falls back to the heuristic.
\<close>

definition check_with_llm ::
  "(string \<Rightarrow> string \<Rightarrow> string \<Rightarrow> string option) \<Rightarrow> (string \<Rightarrow> embedding) \<Rightarrow>
   string \<Rightarrow> string \<Rightarrow> string \<Rightarrow> bool \<times> string" where
  "check_with_llm llm encode note_sentence lecture_sentence full_lecture =
     (case llm note_sentence lecture_sentence (take 1000 full_lecture) of
        Some content \<Rightarrow>
          (let result = strip content in
           if startswith ''YES'' result then
             (case dropWhile (\<lambda>c. c \<noteq> CHR ''|'') result of
                [] \<Rightarrow> (True, take 150 lecture_sentence)
              | bar # correction \<Rightarrow> (True, strip correction))
           else (False, []))
      | None \<Rightarrow>
          (let contradiction_score = check_contradiction encode note_sentence lecture_sentence in
           if contradiction_score > contradiction_threshold
           then (True, extract_correction lecture_sentence)
           else (False, [])))"

text \<open>
  The dictionaries \<^verbatim>\<open>detect\<close> returns, and list indexing as Python does it: a negative
  index counts from the end, an index out of range raises \<^verbatim>\<open>IndexError\<close>.
\<close>

record misconception =
  note_text :: string
  suggestion :: string
  position :: int

datatype py_error = IndexError

definition py_nth :: "'a list \<Rightarrow> int \<Rightarrow> py_error + 'a" where
  "py_nth xs i =
     (let n = int (length xs); j = (if i < 0 then n + i else i) in
      if 0 \<le> j \<and> j < n then Inr (xs ! nat j) else Inl IndexError)"

text \<open>The inner loop, \<^verbatim>\<open>for j, lecture_emb in enumerate(lecture_embeddings)\<close>.\<close>

fun best_match_loop :: "embedding \<Rightarrow> (nat \<times> embedding) list \<Rightarrow> real \<times> int \<Rightarrow> real \<times> int" where
  "best_match_loop note_emb [] acc = acc"
| "best_match_loop note_emb ((j, lecture_emb) # rest) (max_similarity, best_lecture_idx) =
     (let sim = similarity note_emb lecture_emb in
      if sim > max_similarity
      then best_match_loop note_emb rest (sim, int j)
      else best_match_loop note_emb rest (max_similarity, best_lecture_idx))"

text \<open>The sentences of the lecture, as \<^verbatim>\<open>detect\<close> computes them from the slides.\<close>

definition lecture_sentences_of :: "slide list \<Rightarrow> string list" where
  "lecture_sentences_of slide_data =
     split_into_sentences (join '' '' (map slide_text slide_data))"

text \<open>
  What the inner loop leaves in \<^verbatim>\<open>max_similarity\<close> and \<^verbatim>\<open>best_lecture_idx\<close> for one note
  sentence, started as the source starts them, at 0.0 and -1.
\<close>

definition best_match :: "(string \<Rightarrow> embedding) \<Rightarrow> string list \<Rightarrow> string \<Rightarrow> real \<times> int" where
  "best_match encode lecture_sentences note_sentence =
     best_match_loop (encode note_sentence)
       (enumerate 0 (embed_batch encode lecture_sentences)) (0, - 1)"

text \<open>
  The body of the outer loop for the note sentence at index \<open>i\<close>: the dictionaries it
  appends (none or one), or the error it raises.
\<close>

definition check_note ::
  "bool \<Rightarrow> (string \<Rightarrow> string \<Rightarrow> string \<Rightarrow> string option) \<Rightarrow> (string \<Rightarrow> embedding) \<Rightarrow>
   string \<Rightarrow> string list \<Rightarrow> embedding list \<Rightarrow> embedding list \<Rightarrow>
   nat \<times> string \<Rightarrow> py_error + misconception list" where
  "check_note use_llm llm encode lecture_text lecture_sentences note_embeddings
     lecture_embeddings p =
     (case p of (i, note_sentence) \<Rightarrow>
      (case py_nth note_embeddings (int i) of
         Inl e \<Rightarrow> Inl e
       | Inr note_emb \<Rightarrow>
          (case best_match_loop note_emb (enumerate 0 lecture_embeddings) (0, - 1) of
             (max_similarity, best_lecture_idx) \<Rightarrow>
               if max_similarity > 0.5 \<and> best_lecture_idx \<ge> 0 then
                 (case py_nth lecture_sentences best_lecture_idx of
                    Inl e \<Rightarrow> Inl e
                  | Inr lecture_sentence \<Rightarrow>
                      if use_llm then
                        (case check_with_llm llm encode note_sentence lecture_sentence
                                lecture_text of
                           (is_misconception, correction) \<Rightarrow>
                             if is_misconception
                             then Inr [\<lparr>note_text = note_sentence, suggestion = correction,
                                        position = int i\<rparr>]
                             else Inr [])
                      else
                        (let contradiction_score =
                               check_contradiction encode note_sentence lecture_sentence in
                         if contradiction_score > contradiction_threshold
                         then Inr [\<lparr>note_text = note_sentence,
                                    suggestion = extract_correction lecture_sentence,
                                    position = int i\<rparr>]
                         else Inr []))
               else Inr [])))"

text \<open>The outer loop, \<^verbatim>\<open>for i, note_sentence in enumerate(note_sentences)\<close>.\<close>

fun detect_loop ::
  "(nat \<times> string \<Rightarrow> py_error + misconception list) \<Rightarrow> (nat \<times> string) list \<Rightarrow>
   misconception list \<Rightarrow> py_error + misconception list" where
  "detect_loop body [] misconceptions = Inr misconceptions"
| "detect_loop body (p # rest) misconceptions =
     (case body p of
        Inl e \<Rightarrow> Inl e
      | Inr found \<Rightarrow> detect_loop body rest (misconceptions @ found))"

definition detect ::
  "bool \<Rightarrow> (string \<Rightarrow> string \<Rightarrow> string \<Rightarrow> string option) \<Rightarrow> (string \<Rightarrow> embedding) \<Rightarrow>
   string \<Rightarrow> slide list \<Rightarrow> py_error + misconception list" where
  "detect use_llm llm encode notes_text slide_data =
     (let note_sentences = split_into_sentences notes_text;
          lecture_text = join '' '' (map slide_text slide_data);
          lecture_sentences = split_into_sentences lecture_text;
          note_embeddings = embed_batch encode note_sentences;
          lecture_embeddings = embed_batch encode lecture_sentences
      in detect_loop
           (check_note use_llm llm encode lecture_text lecture_sentences note_embeddings
              lecture_embeddings)
           (enumerate 0 note_sentences) [])"

subsection \<open>What splitting on a terminator followed by white space means\<close>

text \<open>
  A separator is a terminator followed by one or more white-space characters; a text
  has a boundary where a terminator is followed by a white-space character;
  \<open>interleave\<close> puts the separators back between the pieces.
\<close>

fun is_separator :: "string \<Rightarrow> bool" where
  "is_separator (c # d # rest) = (is_terminator c \<and> isspace d \<and> list_all isspace rest)"
| "is_separator _ = False"

fun has_boundary :: "string \<Rightarrow> bool" where
  "has_boundary (c # d # rest) = ((is_terminator c \<and> isspace d) \<or> has_boundary (d # rest))"
| "has_boundary _ = False"

fun interleave :: "string list \<Rightarrow> string list \<Rightarrow> string" where
  "interleave [] seps = []"
| "interleave (piece # pieces) [] = piece"
| "interleave (piece # pieces) (sep # seps) = piece @ sep @ interleave pieces seps"

subsection \<open>Stand-ins for the external capabilities\<close>

text \<open>
  An encoder that maps every text to the same unit vector, so that every pair of texts
  has similarity 1, a language model whose every request raises, and the slide list
  of a lecture with one slide.
\<close>

definition unit_encode :: "string \<Rightarrow> embedding" where
  "unit_encode txt = [1]"

definition no_llm :: "string \<Rightarrow> string \<Rightarrow> string \<Rightarrow> string option" where
  "no_llm note_sentence lecture_sentence context = None"

definition one_slide :: "string \<Rightarrow> embedding \<Rightarrow> slide list" where
  "one_slide txt e = [\<lparr>slide_index = 0, slide_text = txt, slide_embedding = e\<rparr>]"

text \<open>An encoder with two directions: texts that mention risk, and the others.\<close>

definition topic_encode :: "string \<Rightarrow> embedding" where
  "topic_encode txt = (if contains ''risk'' txt then [1, 0] else [0, 1])"

text \<open>An extraction strategy that returns the text itself as its only concept.\<close>

definition single_concept :: "string \<Rightarrow> string set" where
  "single_concept txt = {txt}"

section \<open>Concept detector\<close>

text \<open>
  Source: \<^verbatim>\<open>backend/services/concept_detector.py\<close>. A Python set of strings is a set;
  the order in which \<^verbatim>\<open>list(s)\<close> enumerates a set is not fixed by the language and is the
  parameter \<open>to_list\<close> of \<open>find_missing_concepts\<close>.
\<close>

subsection \<open>The regular expressions of the filter\<close>

text \<open>\<^verbatim>\<open>re.sub(r"^[\d\.\)\-]+\s*", "", s)\<close>: leading bullets and numbering.\<close>

definition is_numbering_char :: "char \<Rightarrow> bool" where
  "is_numbering_char c = (isdigit c \<or> c = CHR ''.'' \<or> c = CHR '')'' \<or> c = CHR ''-'')"

definition strip_numbering :: "string \<Rightarrow> string" where
  "strip_numbering s =
     (if takeWhile is_numbering_char s = [] then s
      else dropWhile isspace (dropWhile is_numbering_char s))"

text \<open>
  \<^verbatim>\<open>re.search(r"\b[A-Z][a-z]+\b", s)\<close>; the flag says whether the character before the
  current position is a word character.
\<close>

fun search_capitalized :: "bool \<Rightarrow> string \<Rightarrow> bool" where
  "search_capitalized prev_word [] = False"
| "search_capitalized prev_word (c # cs) =
     ((\<not> prev_word \<and> is_upper_az c \<and> takeWhile is_lower_az cs \<noteq> [] \<and>
       (case dropWhile is_lower_az cs of [] \<Rightarrow> True | d # rest \<Rightarrow> \<not> is_word_char d))
      \<or> search_capitalized (is_word_char c) cs)"

text \<open>
  \<^verbatim>\<open>re.search(r"\bword\b", s)\<close> for a word made of word characters, with the same flag.
\<close>

fun search_word :: "bool \<Rightarrow> string \<Rightarrow> string \<Rightarrow> bool" where
  "search_word prev_word w [] = False"
| "search_word prev_word w (c # cs) =
     ((\<not> prev_word \<and> startswith w (c # cs) \<and>
       (case drop (length w) (c # cs) of [] \<Rightarrow> True | d # rest \<Rightarrow> \<not> is_word_char d))
      \<or> search_word (is_word_char c) w cs)"

text \<open>\<^verbatim>\<open>re.search(r"[A-Za-z]{3,}", s)\<close> and \<^verbatim>\<open>re.search(r"\d", s)\<close>.\<close>

fun has_letter_run :: "string \<Rightarrow> bool" where
  "has_letter_run (a # b # c # rest) =
     ((is_letter_az a \<and> is_letter_az b \<and> is_letter_az c) \<or> has_letter_run (b # c # rest))"
| "has_letter_run _ = False"

definition has_digit :: "string \<Rightarrow> bool" where
  "has_digit s = list_ex isdigit s"

text \<open>\<^verbatim>\<open>str.split()\<close>: the maximal runs of characters that are not white space.\<close>

function split_words :: "string \<Rightarrow> string list" where
  "split_words [] = []"
| "split_words (c # cs) =
     (if isspace c then split_words cs
      else (c # takeWhile (\<lambda>d. \<not> isspace d) cs) #
           split_words (dropWhile (\<lambda>d. \<not> isspace d) cs))"
  by pat_completeness auto
termination
  by (relation "measure length")
     (auto simp: less_Suc_eq_le intro: length_dropWhile_le)

subsection \<open>Filtering\<close>

text \<open>
  The noise patterns, searched in the lower-cased concept. The first pattern of the
  source is a class of three bullet glyphs whose code points lie above 255; no string of
  this model contains them, so it never matches here.
\<close>

definition noise_words :: "string list" where
  "noise_words = [''slide'', ''page'', ''figure'', ''table'', ''university'', ''department'']"

definition is_noise :: "string \<Rightarrow> bool" where
  "is_noise s =
     (contains ''--'' s \<or> contains ''___'' s \<or> list_ex (\<lambda>w. search_word False w s) noise_words)"

definition stop_words :: "string list" where
  "stop_words =
     [''the'', ''and'', ''or'', ''but'', ''in'', ''on'', ''at'', ''to'', ''for'', ''of'',
      ''with'', ''by'', ''a'', ''an'', ''is'', ''are'', ''was'', ''were'']"

definition stopword_ratio :: "string list \<Rightarrow> real" where
  "stopword_ratio ws = real (length (filter (\<lambda>w. w \<in> set stop_words) ws)) / real (length ws)"

text \<open>
  The body of the loop of \<^verbatim>\<open>_filter_concepts\<close> for one concept: \<open>None\<close> where the source
  says \<^verbatim>\<open>continue\<close>, otherwise the string it adds to the result.
\<close>

definition filter_concept :: "string \<Rightarrow> string option" where
  "filter_concept concept =
     (if concept = [] then None
      else let concept_clean = strip concept in
        if concept_clean = [] then None
        else let concept_clean = strip_numbering concept_clean in
          if length concept_clean < 6 \<and> \<not> has_digit concept_clean \<and>
             \<not> search_capitalized False concept_clean then None
          else if is_noise (lower concept_clean) then None
          else let ws = split_words (lower concept_clean) in
            if ws = [] then None
            else if stopword_ratio ws > 0.65 \<and> length ws < 5 then None
            else if \<not> has_letter_run concept_clean then None
            else Some concept_clean)"

definition filter_concepts :: "string set \<Rightarrow> string set" where
  "filter_concepts concepts = Option.these (filter_concept ` concepts)"

subsection \<open>Extraction from free text\<close>

text \<open>
  \<^verbatim>\<open>extract_concepts_from_text\<close>. The two extraction strategies are parameters: the first
  asks the language model, the second is the pattern-based extraction; what is stated
  below about this function holds whatever they return.
\<close>

definition extract_concepts_from_text ::
  "bool \<Rightarrow> (string \<Rightarrow> string set) \<Rightarrow> (string \<Rightarrow> string set) \<Rightarrow> string \<Rightarrow> string set" where
  "extract_concepts_from_text use_llm extract_with_llm extract_from_text_fallback txt =
     (if strip txt = [] then {}
      else let concepts = (if use_llm then extract_with_llm txt
                           else extract_from_text_fallback txt)
           in filter_concepts concepts)"

subsection \<open>Missing concepts\<close>

text \<open>The inner loop, \<^verbatim>\<open>for note_emb in notes_embeddings\<close>.\<close>

fun max_similarity_loop :: "embedding \<Rightarrow> embedding list \<Rightarrow> real \<Rightarrow> real" where
  "max_similarity_loop missing_emb [] max_similarity = max_similarity"
| "max_similarity_loop missing_emb (note_emb # rest) max_similarity =
     max_similarity_loop missing_emb rest
       (max max_similarity (similarity missing_emb note_emb))"

text \<open>The outer loop, \<^verbatim>\<open>for i, missing_concept in enumerate(missing_list)\<close>.\<close>

fun truly_missing_loop ::
  "embedding list \<Rightarrow> embedding list \<Rightarrow> (nat \<times> string) list \<Rightarrow> string list \<Rightarrow>
   py_error + string list" where
  "truly_missing_loop missing_embeddings notes_embeddings [] truly_missing = Inr truly_missing"
| "truly_missing_loop missing_embeddings notes_embeddings ((i, missing_concept) # rest)
     truly_missing =
     (case py_nth missing_embeddings (int i) of
        Inl e \<Rightarrow> Inl e
      | Inr missing_emb \<Rightarrow>
          (let max_similarity = max_similarity_loop missing_emb notes_embeddings 0 in
           if max_similarity < 0.75
           then truly_missing_loop missing_embeddings notes_embeddings rest
                  (truly_missing @ [missing_concept])
           else truly_missing_loop missing_embeddings notes_embeddings rest truly_missing))"

definition find_missing_concepts ::
  "(string \<Rightarrow> embedding) \<Rightarrow> (string set \<Rightarrow> string list) \<Rightarrow> string set \<Rightarrow> string set \<Rightarrow>
   py_error + string list" where
  "find_missing_concepts encode to_list lecture_concepts notes_concepts =
     (let lecture_concepts = filter_concepts lecture_concepts;
          notes_concepts = filter_concepts notes_concepts;
          missing = lecture_concepts - notes_concepts
      in if missing = {} then Inr []
         else let missing_list = to_list missing;
                  notes_list = to_list notes_concepts
              in if notes_list = [] then Inr (take 10 missing_list)
                 else let missing_embeddings = embed_batch encode missing_list;
                          notes_embeddings = embed_batch encode notes_list
                      in (case truly_missing_loop missing_embeddings notes_embeddings
                                 (enumerate 0 missing_list) [] of
                            Inl e \<Rightarrow> Inl e
                          | Inr truly_missing \<Rightarrow> Inr (take 10 truly_missing)))"

text \<open>
  What \<^verbatim>\<open>list(s)\<close> guarantees of the enumeration of a finite set: every element, once.
\<close>

definition enumerates_sets :: "(string set \<Rightarrow> string list) \<Rightarrow> bool" where
  "enumerates_sets to_list = (\<forall>S. finite S \<longrightarrow> set (to_list S) = S \<and> distinct (to_list S))"

text \<open>A bullet or numbering character at the start of a string.\<close>

definition starts_with_numbering :: "string \<Rightarrow> bool" where
  "starts_with_numbering s = (s \<noteq> [] \<and> is_numbering_char (hd s))"

section \<open>Coverage estimation: the two loops\<close>

lemma cumulative_loop_append:
  "cumulative_loop s (xs @ ys) acc = cumulative_loop s ys (cumulative_loop s xs acc)"
  by (induction s xs acc rule: cumulative_loop.induct) (simp_all add: Let_def)

lemma cumulative_loop_invariant:
  assumes "cumulative_loop s [0..<k] (0, 0) = (m, b)"
  shows "0 \<le> m \<and> (\<forall>j<k. sum_list (take (Suc j) s) \<le> m) \<and>
         (0 < m \<longrightarrow> 0 \<le> b \<and> nat b < k \<and> sum_list (take (Suc (nat b)) s) = m \<and>
                    (\<forall>j<nat b. sum_list (take (Suc j) s) < m)) \<and>
         (m = 0 \<longrightarrow> b = 0)"
  using assms
proof (induction k arbitrary: m b)
  case 0
  then show ?case by simp
next
  case (Suc k)
  obtain m0 b0 where prev: "cumulative_loop s [0..<k] (0, 0) = (m0, b0)"
    by (cases "cumulative_loop s [0..<k] (0, 0)")
  note IH = Suc.IH [OF prev]
  show ?case
  proof (cases "sum_list (take (Suc k) s) > m0")
    case True
    with Suc.prems prev have eq: "m = sum_list (take (Suc k) s)" "b = int k"
      by (simp_all add: cumulative_loop_append)
    from True IH have "0 < m" using eq by linarith
    moreover have "\<forall>j<Suc k. sum_list (take (Suc j) s) \<le> m"
      using IH True eq by (auto simp: less_Suc_eq) 
    moreover have "\<forall>j<k. sum_list (take (Suc j) s) < m"
      using IH True eq by fastforce
    ultimately show ?thesis using eq by simp
  next
    case False
    with Suc.prems prev have eq: "m = m0" "b = b0"
      by (simp_all add: cumulative_loop_append)
    show ?thesis using IH False unfolding eq by (auto simp: less_Suc_eq)
  qed
qed

lemma threshold_loop_ge_init: "b \<le> threshold_loop ps b"
proof (induction ps b rule: threshold_loop.induct)
  case (1 b)
  then show ?case by simp
next
  case (2 i sim rest b)
  show ?case
  proof (cases "sim > similarity_threshold")
    case True
    with "2.IH"(1) have "max b (int i) \<le> threshold_loop rest (max b (int i))" by simp
    with True show ?thesis by simp
  next
    case False
    with "2.IH"(2) show ?thesis by simp
  qed
qed

lemma threshold_loop_ge_index:
  "(i, x) \<in> set ps \<Longrightarrow> x > similarity_threshold \<Longrightarrow> int i \<le> threshold_loop ps b"
proof (induction ps b rule: threshold_loop.induct)
  case (1 b)
  then show ?case by simp
next
  case (2 j sim rest b)
  show ?case
  proof (cases "(i, x) = (j, sim)")
    case True
    then have "threshold_loop ((j, sim) # rest) b = threshold_loop rest (max b (int i))"
      using "2.prems" by simp
    moreover have "max b (int i) \<le> threshold_loop rest (max b (int i))"
      by (rule threshold_loop_ge_init)
    ultimately show ?thesis by linarith
  next
    case False
    then have "(i, x) \<in> set rest" using "2.prems" by auto
    then show ?thesis using "2.IH" "2.prems" by (cases "sim > similarity_threshold") simp_all
  qed
qed

lemma threshold_loop_cases:
  "threshold_loop ps b = b \<or>
   (\<exists>i x. (i, x) \<in> set ps \<and> x > similarity_threshold \<and> threshold_loop ps b = int i)"
proof (induction ps b rule: threshold_loop.induct)
  case (1 b)
  then show ?case by simp
next
  case (2 j sim rest b)
  show ?case
  proof (cases "sim > similarity_threshold")
    case True
    from "2.IH"(1) [OF True] show ?thesis using True
      by (auto simp: max_def split: if_splits)
  next
    case False
    from "2.IH"(2) [OF False] show ?thesis using False by auto
  qed
qed

lemma cumulative_loop_index_range:
  assumes "cumulative_loop s [0..<k] (0, 0) = (m, b)"
  shows "0 \<le> b \<and> (b = 0 \<or> b < int k)"
  using cumulative_loop_invariant [OF assms] by (cases "0 < m") auto

lemma covered_index_range:
  "0 \<le> covered_index s \<and> (s \<noteq> [] \<longrightarrow> covered_index s < int (length s))"
proof -
  obtain m b where loop: "cumulative_loop s [0..<length s] (0, 0) = (m, b)"
    by (cases "cumulative_loop s [0..<length s] (0, 0)")
  have b: "0 \<le> b" "b = 0 \<or> b < int (length s)"
    using cumulative_loop_index_range [OF loop] by simp_all
  have r: "covered_index s = threshold_loop (enumerate 0 s) b"
    by (simp add: covered_index_def loop)
  have "0 \<le> covered_index s"
    using threshold_loop_ge_init [of b "enumerate 0 s"] b r by linarith
  moreover have "covered_index s < int (length s)" if "s \<noteq> []"
    using threshold_loop_cases [of "enumerate 0 s" b] b r that
    by (auto simp: in_set_enumerate_eq)
  ultimately show ?thesis by simp
qed

lemma covered_index_ge:
  assumes "i < length s" "s ! i > similarity_threshold"
  shows "int i \<le> covered_index s"
proof -
  obtain m b where loop: "cumulative_loop s [0..<length s] (0, 0) = (m, b)"
    by (cases "cumulative_loop s [0..<length s] (0, 0)")
  have "(i, s ! i) \<in> set (enumerate 0 s)"
    using assms by (simp add: in_set_enumerate_eq)
  then show ?thesis
    using threshold_loop_ge_index assms by (simp add: covered_index_def loop)
qed

lemma length_running_sums: "length (running_sums s) = length s"
  by (simp add: running_sums_def)

lemma nth_running_sums: "j < length s \<Longrightarrow> running_sums s ! j = sum_list (take (Suc j) s)"
  by (simp add: running_sums_def)

lemma earliest_max_index_unique:
  assumes "i < length xs" "xs ! i = Max (set xs)" "\<forall>j<i. xs ! j < Max (set xs)"
  shows "earliest_max_index xs = i"
proof -
  have "takeWhile (\<lambda>x. x \<noteq> Max (set xs)) xs = take i xs"
    using assms by (intro takeWhile_eq_take_P_nth) auto
  then show ?thesis using assms(1) by (simp add: earliest_max_index_def)
qed

lemma earliest_max_index_spec:
  assumes "xs \<noteq> []"
  shows "earliest_max_index xs < length xs \<and>
         xs ! earliest_max_index xs = Max (set xs) \<and>
         (\<forall>j<earliest_max_index xs. xs ! j < Max (set xs))"
proof -
  let ?P = "\<lambda>x. x \<noteq> Max (set xs)"
  let ?k = "length (takeWhile ?P xs)"
  have "Max (set xs) \<in> set xs" using assms by (intro Max_in) simp_all
  then have "takeWhile ?P xs \<noteq> xs"
    by (auto simp: takeWhile_eq_all_conv)
  then have lt: "?k < length xs"
    using length_takeWhile_le [of ?P xs] by (metis le_neq_implies_less length_take take_all_iff takeWhile_eq_take order_refl)
  then have at: "xs ! ?k = Max (set xs)"
    using nth_length_takeWhile [of ?P xs] by simp
  have before: "xs ! j < Max (set xs)" if "j < ?k" for j
  proof -
    have "takeWhile ?P xs ! j \<in> set (takeWhile ?P xs)" using that by simp
    then have "xs ! j \<in> set (takeWhile ?P xs)" using that by (simp add: takeWhile_nth)
    then have "xs ! j \<in> set xs" "xs ! j \<noteq> Max (set xs)"
      by (auto dest: set_takeWhileD)
    moreover have "xs ! j \<le> Max (set xs)"
      using \<open>xs ! j \<in> set xs\<close> by (intro Max_ge) simp_all
    ultimately show ?thesis by linarith
  qed
  show ?thesis using lt at before by (simp add: earliest_max_index_def)
qed

lemma cumulative_loop_best:
  assumes "cumulative_loop s [0..<length s] (0, 0) = (m, b)"
  shows "b = (if \<exists>x\<in>set (running_sums s). 0 < x then cumulative_best s else 0)"
proof (cases "\<exists>x\<in>set (running_sums s). 0 < x")
  case True
  let ?xs = "running_sums s"
  note inv = cumulative_loop_invariant [OF assms]
  from True obtain j where j: "j < length s" "0 < ?xs ! j"
    by (auto simp: in_set_conv_nth length_running_sums)
  then have "0 < m" using inv by (auto simp: nth_running_sums dest!: spec[of _ j])
  with inv have b: "0 \<le> b" "nat b < length s" "?xs ! nat b = m"
    "\<forall>j<nat b. ?xs ! j < m"
    by (simp_all add: nth_running_sums)
  have "Max (set ?xs) = m"
  proof (rule Max_eqI)
    show "finite (set ?xs)" by simp
    show "\<And>y. y \<in> set ?xs \<Longrightarrow> y \<le> m"
      using inv by (auto simp: in_set_conv_nth length_running_sums nth_running_sums)
    show "m \<in> set ?xs" using b by (metis length_running_sums nth_mem)
  qed
  with b have "earliest_max_index ?xs = nat b"
    by (intro earliest_max_index_unique) (simp_all add: length_running_sums)
  moreover have "s \<noteq> []" using j by auto
  ultimately show ?thesis using True b by (simp add: cumulative_best_def)
next
  case False
  note inv = cumulative_loop_invariant [OF assms]
  have "\<not> 0 < m"
  proof
    assume pos: "0 < m"
    with inv have "nat b < length s" "running_sums s ! nat b = m"
      by (simp_all add: nth_running_sums)
    then have "m \<in> set (running_sums s)" by (metis length_running_sums nth_mem)
    with pos False show False by blast
  qed
  with inv have "b = 0" by auto
  with False show ?thesis by simp
qed

lemma threshold_loop_best:
  assumes "0 \<le> b"
  shows "threshold_loop (enumerate 0 s) b = max b (threshold_best s)"
proof (cases "indices_above s = []")
  case True
  then have none: "\<And>i. i < length s \<Longrightarrow> \<not> s ! i > similarity_threshold"
    by (auto simp: indices_above_def filter_empty_conv)
  have "threshold_loop (enumerate 0 s) b = b"
    using threshold_loop_cases [of "enumerate 0 s" b] none
    by (auto simp: in_set_enumerate_eq)
  with True assms show ?thesis by (simp add: threshold_best_def)
next
  case False
  let ?M = "Max (set (indices_above s))"
  have "?M \<in> set (indices_above s)" using False by (intro Max_in) simp_all
  then have M: "?M < length s" "s ! ?M > similarity_threshold"
    by (simp_all add: indices_above_def)
  then have "(?M, s ! ?M) \<in> set (enumerate 0 s)" by (simp add: in_set_enumerate_eq)
  then have ge: "int ?M \<le> threshold_loop (enumerate 0 s) b"
    using M(2) by (rule threshold_loop_ge_index)
  have ge': "b \<le> threshold_loop (enumerate 0 s) b" by (rule threshold_loop_ge_init)
  have le: "threshold_loop (enumerate 0 s) b \<le> max b (int ?M)"
    using threshold_loop_cases [of "enumerate 0 s" b]
  proof
    assume "threshold_loop (enumerate 0 s) b = b"
    then show ?thesis by simp
  next
    assume "\<exists>i x. (i, x) \<in> set (enumerate 0 s) \<and> x > similarity_threshold \<and>
              threshold_loop (enumerate 0 s) b = int i"
    then obtain i where i: "i < length s" "s ! i > similarity_threshold"
      "threshold_loop (enumerate 0 s) b = int i"
      by (auto simp: in_set_enumerate_eq)
    then have "i \<in> set (indices_above s)" by (simp add: indices_above_def)
    then have "i \<le> ?M" by simp
    with i(3) show ?thesis by simp
  qed
  from ge ge' le False show ?thesis by (simp add: threshold_best_def)
qed

section \<open>Coverage estimation: the claims\<close>

lemma find_covered_slides_in_range:
  "0 \<le> find_covered_slides slide_data e \<and>
   (\<forall>slides. slide_data = Some slides \<and> slides \<noteq> [] \<longrightarrow>
      find_covered_slides slide_data e < int (length slides))"
proof (cases slide_data)
  case None
  then show ?thesis by (simp add: find_covered_slides_def)
next
  case (Some slides)
  show ?thesis
  proof (cases slides)
    case Nil
    with Some show ?thesis by (simp add: find_covered_slides_def)
  next
    case (Cons a rest)
    let ?sims = "map (\<lambda>slide. similarity e (slide_embedding slide)) slides"
    have "find_covered_slides slide_data e = covered_index ?sims"
      using Some Cons by (simp add: find_covered_slides_def)
    moreover have "?sims \<noteq> []" using Cons by simp
    ultimately show ?thesis
      using covered_index_range [of ?sims] Some by simp
  qed
qed

text \<open>
  C1, as the code has it. The returned index is the larger of two proposals. The first
  loop starts from \<^verbatim>\<open>max_cumulative = 0\<close> and only a strictly larger running sum
  moves it, so its proposal is the earliest index at which the running sum of the
  similarities of segments \<open>0..i\<close> takes its maximum when some running sum is strictly
  positive, and index 0 when none is. The second proposal is the largest index whose
  own similarity exceeds 0.3, and 0 when there is none. The empty sequence gives 0.
\<close>

theorem covered_index_two_heuristics:
  "covered_index similarities =
     max (if \<exists>x\<in>set (running_sums similarities). 0 < x
          then cumulative_best similarities else 0)
         (threshold_best similarities)
   \<and> covered_index [] = 0"
proof -
  obtain m b where loop:
    "cumulative_loop similarities [0..<length similarities] (0, 0) = (m, b)"
    by (cases "cumulative_loop similarities [0..<length similarities] (0, 0)")
  have b: "b = (if \<exists>x\<in>set (running_sums similarities). 0 < x
                then cumulative_best similarities else 0)"
    by (rule cumulative_loop_best [OF loop])
  have "0 \<le> b" using cumulative_loop_index_range [OF loop] by simp
  then have "threshold_loop (enumerate 0 similarities) b = max b (threshold_best similarities)"
    by (rule threshold_loop_best)
  then have "covered_index similarities = max b (threshold_best similarities)"
    by (simp add: covered_index_def loop)
  moreover have "covered_index [] = 0"
    by (simp add: covered_index_def)
  ultimately show ?thesis using b by simp
qed

text \<open>
  On the similarities 0.2, 0.2, 0.2, -0.5 the running sums are 0.2, 0.4, 0.6, 0.1: the
  first proposal is index 2, no similarity exceeds 0.3, and the result is 2.
\<close>

theorem covered_index_two_heuristics_witness:
  "(\<exists>x\<in>set (running_sums [1/5, 1/5, 1/5, -1/2]). 0 < x) \<and>
   cumulative_best [1/5, 1/5, 1/5, -1/2] = 2 \<and>
   threshold_best [1/5, 1/5, 1/5, -1/2] = 0 \<and>
   covered_index [1/5, 1/5, 1/5, -1/2] = 2"
proof -
  have rs: "running_sums [1/5, 1/5, 1/5, -1/2] = [1/5, 2/5, 3/5, 1/10]"
    by (simp add: running_sums_def upt_rec [of 0] upt_rec [of 1] upt_rec [of 2] upt_rec [of 3])
  have cb: "cumulative_best [1/5, 1/5, 1/5, -1/2] = 2"
    unfolding cumulative_best_def rs by (simp add: earliest_max_index_def)
  have tb: "threshold_best [1/5, 1/5, 1/5, -1/2] = 0"
    by (simp add: threshold_best_def indices_above_def similarity_threshold_def)
  have ex: "\<exists>x\<in>set (running_sums [1/5, 1/5, 1/5, -1/2]). 0 < x"
    unfolding rs by simp
  from covered_index_two_heuristics [of "[1/5, 1/5, 1/5, -1/2]"] ex cb tb
  show ?thesis by simp
qed

text \<open>
  C1 as the specification states it, with the first proposal being the index of the
  maximum running sum whatever its sign, fails on the similarities -0.5, 0.2: the
  running sums are -0.5 and -0.3, the maximum is at index 1, no similarity exceeds
  0.3, and the code returns 0.
\<close>

theorem covered_index_negative_sums_counterexample:
  "cumulative_best [-1/2, 1/5] = 1 \<and> threshold_best [-1/2, 1/5] = 0 \<and>
   covered_index [-1/2, 1/5] = 0 \<and>
   covered_index [-1/2, 1/5] \<noteq> max (cumulative_best [-1/2, 1/5]) (threshold_best [-1/2, 1/5])"
proof -
  have cb: "cumulative_best [-1/2, 1/5] = 1"
    by (simp add: cumulative_best_def running_sums_def earliest_max_index_def)
  have tb: "threshold_best [-1/2, 1/5] = 0"
    by (simp add: threshold_best_def indices_above_def similarity_threshold_def)
  have ci: "covered_index [-1/2, 1/5] = 0"
    by (simp add: covered_index_def enumerate_eq_zip similarity_threshold_def)
  from cb tb ci show ?thesis by simp
qed

text \<open>
  C6. For a non-empty sequence of \<open>n\<close> similarities the returned index lies in
  \<open>[0, n - 1]\<close>; for the empty sequence it is 0. The index is a Python integer, so
  that it is not negative is part of the statement.
\<close>

theorem covered_index_in_range:
  "(similarities = [] \<longrightarrow> covered_index similarities = 0) \<and>
   (similarities \<noteq> [] \<longrightarrow>
      0 \<le> covered_index similarities \<and>
      covered_index similarities \<le> int (length similarities) - 1)"
proof -
  have "covered_index [] = 0" by (simp add: covered_index_def)
  then show ?thesis using covered_index_range [of similarities] by auto
qed

theorem covered_index_in_range_witness:
  "[1/10, 1/5, 3/5] \<noteq> ([] :: real list) \<and>
   0 \<le> covered_index [1/10, 1/5, 3/5] \<and> covered_index [1/10, 1/5, 3/5] \<le> 2"
  using covered_index_in_range [of "[1/10, 1/5, 3/5]"] by simp

text \<open>
  C7. If the similarity at position \<open>i\<close> exceeds 0.3, the returned index is at least
  \<open>i\<close>.
\<close>

theorem covered_index_ge_above_threshold:
  "i < length similarities \<Longrightarrow> 3/10 < similarities ! i \<Longrightarrow>
   int i \<le> covered_index similarities"
  using covered_index_ge [of i similarities] by (simp add: similarity_threshold_def)

theorem covered_index_ge_above_threshold_witness:
  "(2::nat) < length [1/10, 1/5, 3/5 :: real] \<and> 3/10 < [1/10, 1/5, 3/5 :: real] ! 2 \<and>
   2 \<le> covered_index [1/10, 1/5, 3/5]"
  using covered_index_ge_above_threshold [of 2 "[1/10, 1/5, 3/5]"] by simp

section \<open>Misconception detector: the loops\<close>

lemma py_nth_in_range:
  "0 \<le> i \<Longrightarrow> i < int (length xs) \<Longrightarrow> py_nth xs i = Inr (xs ! nat i)"
  by (simp add: py_nth_def)

lemma best_match_loop_index:
  assumes "best_match_loop e ps (m, b) = (m', b')"
    and "\<forall>p\<in>set ps. fst p < n"
  shows "b' = b \<or> (0 \<le> b' \<and> b' < int n)"
  using assms
proof (induction e ps "(m, b)" arbitrary: m b rule: best_match_loop.induct)
  case (1 e)
  then show ?case by simp
next
  case (2 e j lecture_emb rest m b)
  show ?case
  proof (cases "similarity e lecture_emb > m")
    case True
    with "2.prems" have "best_match_loop e rest (similarity e lecture_emb, int j) = (m', b')"
      by simp
    from "2.hyps"(1) [OF refl True this] "2.prems"(2)
    show ?thesis by auto
  next
    case False
    with "2.prems" have "best_match_loop e rest (m, b) = (m', b')"
      by simp
    from "2.hyps"(2) [OF refl False this] "2.prems"(2)
    show ?thesis by auto
  qed
qed

lemma check_note_result:
  assumes "i < length note_embeddings"
    and "length lecture_sentences = length lecture_embeddings"
  shows "\<exists>found. check_note use_llm llm encode lecture_text lecture_sentences note_embeddings
             lecture_embeddings (i, s) = Inr found \<and>
           (found = [] \<or>
            (\<exists>sug. found = [\<lparr>note_text = s, suggestion = sug, position = int i\<rparr>]))"
proof -
  let ?e = "note_embeddings ! i"
  have nth: "py_nth note_embeddings (int i) = Inr ?e"
    using assms(1) by (simp add: py_nth_def)
  obtain m b where bm: "best_match_loop ?e (enumerate 0 lecture_embeddings) (0, - 1) = (m, b)"
    by (cases "best_match_loop ?e (enumerate 0 lecture_embeddings) (0, - 1)")
  have "\<forall>p\<in>set (enumerate 0 lecture_embeddings). fst p < length lecture_embeddings"
    by (simp add: in_set_enumerate_eq)
  from best_match_loop_index [OF bm this]
  have b: "b = - 1 \<or> (0 \<le> b \<and> b < int (length lecture_sentences))"
    using assms(2) by simp
  show ?thesis
  proof (cases "m > 0.5 \<and> b \<ge> 0")
    case False
    then show ?thesis by (auto simp: check_note_def nth bm)
  next
    case True
    with b have "py_nth lecture_sentences b = Inr (lecture_sentences ! nat b)"
      by (intro py_nth_in_range) auto
    with True show ?thesis
      by (auto simp: check_note_def nth bm Let_def split: prod.splits)
  qed
qed

lemma detect_loop_result:
  assumes "\<forall>p\<in>set ps. \<exists>found. body p = Inr found \<and>
             (found = [] \<or>
              (\<exists>sug. found = [\<lparr>note_text = snd p, suggestion = sug, position = int (fst p)\<rparr>]))"
    and "sorted_wrt (<) (map fst ps)"
  shows "\<exists>ms. detect_loop body ps acc = Inr (acc @ ms) \<and>
           length ms \<le> length ps \<and>
           sorted_wrt (<) (map position ms) \<and>
           (\<forall>m\<in>set ms. \<exists>p\<in>set ps. position m = int (fst p) \<and> note_text m = snd p)"
  using assms
proof (induction ps arbitrary: acc)
  case Nil
  then show ?case by simp
next
  case (Cons p rest)
  from Cons.prems(1) obtain found where found: "body p = Inr found"
    "found = [] \<or>
     (\<exists>sug. found = [\<lparr>note_text = snd p, suggestion = sug, position = int (fst p)\<rparr>])"
    by auto
  have rest_ok: "\<forall>q\<in>set rest. \<exists>found. body q = Inr found \<and>
             (found = [] \<or>
              (\<exists>sug. found = [\<lparr>note_text = snd q, suggestion = sug, position = int (fst q)\<rparr>]))"
    using Cons.prems(1) by simp
  have sorted_rest: "sorted_wrt (<) (map fst rest)" and above: "\<forall>q\<in>set rest. fst p < fst q"
    using Cons.prems(2) by auto
  from Cons.IH [OF rest_ok sorted_rest, of "acc @ found"]
  obtain ms where ms: "detect_loop body rest (acc @ found) = Inr ((acc @ found) @ ms)"
    "length ms \<le> length rest" "sorted_wrt (<) (map position ms)"
    "\<forall>m\<in>set ms. \<exists>q\<in>set rest. position m = int (fst q) \<and> note_text m = snd q"
    by blast
  have run: "detect_loop body (p # rest) acc = Inr (acc @ (found @ ms))"
    using found(1) ms(1) by simp
  have len: "length (found @ ms) \<le> length (p # rest)"
    using found(2) ms(2) by auto
  have later: "\<forall>m\<in>set ms. int (fst p) < position m"
    using ms(4) above by fastforce
  have srt: "sorted_wrt (<) (map position (found @ ms))"
    using found(2) ms(3) later by (auto simp: sorted_wrt_append)
  have mem: "\<forall>m\<in>set (found @ ms). \<exists>q\<in>set (p # rest). position m = int (fst q) \<and> note_text m = snd q"
    using found(2) ms(4) by auto
  from run len srt mem show ?case by blast
qed

lemma detect_result:
  "\<exists>ms. detect use_llm llm encode notes_text slide_data = Inr ms \<and>
     length ms \<le> length (split_into_sentences notes_text) \<and>
     sorted_wrt (<) (map position ms) \<and>
     (\<forall>m\<in>set ms. 0 \<le> position m \<and>
        position m < int (length (split_into_sentences notes_text)) \<and>
        note_text m = split_into_sentences notes_text ! nat (position m))"
proof -
  let ?ns = "split_into_sentences notes_text"
  let ?lt = "join '' '' (map slide_text slide_data)"
  let ?ls = "split_into_sentences ?lt"
  let ?body = "check_note use_llm llm encode ?lt ?ls (embed_batch encode ?ns)
                 (embed_batch encode ?ls)"
  have body: "\<forall>p\<in>set (enumerate 0 ?ns). \<exists>found. ?body p = Inr found \<and>
             (found = [] \<or>
              (\<exists>sug. found = [\<lparr>note_text = snd p, suggestion = sug, position = int (fst p)\<rparr>]))"
  proof
    fix p assume "p \<in> set (enumerate 0 ?ns)"
    then have "fst p < length (embed_batch encode ?ns)"
      by (simp add: in_set_enumerate_eq embed_batch_def)
    moreover have "length ?ls = length (embed_batch encode ?ls)"
      by (simp add: embed_batch_def)
    ultimately show "\<exists>found. ?body p = Inr found \<and>
             (found = [] \<or>
              (\<exists>sug. found = [\<lparr>note_text = snd p, suggestion = sug, position = int (fst p)\<rparr>]))"
      using check_note_result [of "fst p" _ ?ls _ use_llm llm encode ?lt "snd p"] by simp
  qed
  have srt: "sorted_wrt (<) (map fst (enumerate 0 ?ns))"
    by (simp add: enumerate_eq_zip sorted_wrt_upt)
  from detect_loop_result [OF body srt, of "[]"]
  obtain ms where ms: "detect_loop ?body (enumerate 0 ?ns) [] = Inr ms"
    "length ms \<le> length ?ns" "sorted_wrt (<) (map position ms)"
    "\<forall>m\<in>set ms. \<exists>p\<in>set (enumerate 0 ?ns). position m = int (fst p) \<and> note_text m = snd p"
    by auto
  have "detect use_llm llm encode notes_text slide_data = Inr ms"
    using ms(1) by (simp add: detect_def Let_def)
  moreover have "\<forall>m\<in>set ms. 0 \<le> position m \<and> position m < int (length ?ns) \<and>
        note_text m = ?ns ! nat (position m)"
    using ms(4) by (fastforce simp: in_set_enumerate_eq)
  ultimately show ?thesis using ms(2,3) by blast
qed

section \<open>Misconception detector: one note sentence against one lecture sentence\<close>

lemma similarity_unit_encode: "similarity (unit_encode a) (unit_encode b) = 1"
  by (simp add: similarity_def linalg_norm_def dot_def unit_encode_def)

lemma join_one_slide: "join '' '' (map slide_text (one_slide txt e)) = txt"
  by (simp add: one_slide_def)

lemma detect_single_pair:
  assumes "split_into_sentences notes = [n]"
    and "split_into_sentences (join '' '' (map slide_text slides)) = [r]"
  shows "detect use_llm llm encode notes slides =
     (if similarity (encode n) (encode r) > 0.5 then
        (if use_llm then
           (if fst (check_with_llm llm encode n r (join '' '' (map slide_text slides)))
            then Inr [\<lparr>note_text = n,
                       suggestion = snd (check_with_llm llm encode n r
                                           (join '' '' (map slide_text slides))),
                       position = 0\<rparr>]
            else Inr [])
         else if check_contradiction encode n r > contradiction_threshold
         then Inr [\<lparr>note_text = n, suggestion = extract_correction r, position = 0\<rparr>]
         else Inr [])
      else Inr [])"
  by (simp add: detect_def assms embed_batch_def enumerate_eq_zip check_note_def py_nth_def
      Let_def split: prod.splits)

lemma check_with_llm_raises:
  "llm n r (take 1000 full) = None \<Longrightarrow>
   check_with_llm llm encode n r full =
     (if check_contradiction encode n r > contradiction_threshold
      then (True, extract_correction r) else (False, []))"
  by (simp add: check_with_llm_def Let_def)

text \<open>
  A pair whose heuristic score does not exceed the threshold is not reported, neither
  by the heuristic branch nor by the fallback of the language-model branch.
\<close>

lemma detect_single_pair_unflagged:
  assumes "split_into_sentences notes = [n]"
    and "split_into_sentences (join '' '' (map slide_text slides)) = [r]"
    and "\<not> check_contradiction encode n r > contradiction_threshold"
    and "\<not> use_llm \<or> llm n r (take 1000 (join '' '' (map slide_text slides))) = None"
  shows "detect use_llm llm encode notes slides = Inr []"
proof -
  have "fst (check_with_llm llm encode n r (join '' '' (map slide_text slides))) = False"
    if "use_llm"
  proof -
    from that assms(4)
    have "llm n r (take 1000 (join '' '' (map slide_text slides))) = None" by simp
    from check_with_llm_raises [of llm n r _ encode, OF this] assms(3)
    show ?thesis by simp
  qed
  then show ?thesis
    unfolding detect_single_pair [OF assms(1,2)] using assms(3) by auto
qed

subsection \<open>The risk-score sentences\<close>

lemma risk_numbers:
  "find_numbers ''The risk score ranges from 1 to 5.'' = [''1'', ''5.'']"
  "find_numbers ''The risk score ranges from 1 to 20.'' = [''1'', ''20.'']"
  by code_simp+

lemma risk_antonyms:
  "antonym_loop (lower ''The risk score ranges from 1 to 5.'')
     (lower ''The risk score ranges from 1 to 20.'') contradiction_words 0 = 0"
  by code_simp

lemma risk_sentences:
  "split_into_sentences ''The risk score ranges from 1 to 5.'' =
     [''The risk score ranges from 1 to 5.'']"
  "split_into_sentences ''The risk score ranges from 1 to 20.'' =
     [''The risk score ranges from 1 to 20.'']"
  by code_simp+

lemma risk_shared_number: "set [''1'', ''5.''] \<inter> set [''1'', ''20.''] \<noteq> {}"
  by simp

lemma risk_score_zero:
  "check_contradiction encode ''The risk score ranges from 1 to 5.''
     ''The risk score ranges from 1 to 20.'' = 0"
  unfolding check_contradiction_def risk_numbers risk_antonyms Let_def
  using risk_shared_number by simp

lemma risk_detect:
  assumes "\<not> use_llm \<or> llm ''The risk score ranges from 1 to 5.''
     ''The risk score ranges from 1 to 20.'' ''The risk score ranges from 1 to 20.'' = None"
  shows "detect use_llm llm encode ''The risk score ranges from 1 to 5.''
     (one_slide ''The risk score ranges from 1 to 20.'' e) = Inr []"
proof (rule detect_single_pair_unflagged)
  show "split_into_sentences ''The risk score ranges from 1 to 5.'' =
     [''The risk score ranges from 1 to 5.'']"
    by (rule risk_sentences)
  show "split_into_sentences
      (join '' '' (map slide_text (one_slide ''The risk score ranges from 1 to 20.'' e))) =
     [''The risk score ranges from 1 to 20.'']"
    unfolding join_one_slide by (rule risk_sentences)
  show "\<not> check_contradiction encode ''The risk score ranges from 1 to 5.''
     ''The risk score ranges from 1 to 20.'' > contradiction_threshold"
    by (simp only: risk_score_zero contradiction_threshold_def)
  show "\<not> use_llm \<or> llm ''The risk score ranges from 1 to 5.''
     ''The risk score ranges from 1 to 20.''
     (take 1000 (join '' '' (map slide_text (one_slide ''The risk score ranges from 1 to 20.'' e))))
     = None"
    unfolding join_one_slide using assms by simp
qed

subsection \<open>The mandatory-tool sentences\<close>

lemma tool_numbers:
  "find_numbers ''The tool is not mandatory.'' = []"
  "find_numbers ''The tool is mandatory.'' = []"
  by code_simp+

lemma tool_antonyms:
  "antonym_loop (lower ''The tool is not mandatory.'') (lower ''The tool is mandatory.'')
     contradiction_words 0 = 3/10"
  by code_simp

lemma tool_sentences:
  "split_into_sentences ''The tool is not mandatory.'' = [''The tool is not mandatory.'']"
  "split_into_sentences ''The tool is mandatory.'' = [''The tool is mandatory.'']"
  by code_simp+

lemma tool_score:
  "check_contradiction encode ''The tool is not mandatory.'' ''The tool is mandatory.'' = 3/10"
  unfolding check_contradiction_def tool_numbers tool_antonyms Let_def by simp

lemma tool_detect:
  assumes "\<not> use_llm \<or> llm ''The tool is not mandatory.'' ''The tool is mandatory.''
     ''The tool is mandatory.'' = None"
  shows "detect use_llm llm encode ''The tool is not mandatory.''
     (one_slide ''The tool is mandatory.'' e) = Inr []"
proof (rule detect_single_pair_unflagged)
  show "split_into_sentences ''The tool is not mandatory.'' = [''The tool is not mandatory.'']"
    by (rule tool_sentences)
  show "split_into_sentences (join '' '' (map slide_text (one_slide ''The tool is mandatory.'' e)))
     = [''The tool is mandatory.'']"
    unfolding join_one_slide by (rule tool_sentences)
  show "\<not> check_contradiction encode ''The tool is not mandatory.'' ''The tool is mandatory.''
     > contradiction_threshold"
    by (simp only: tool_score contradiction_threshold_def)
  show "\<not> use_llm \<or> llm ''The tool is not mandatory.'' ''The tool is mandatory.''
     (take 1000 (join '' '' (map slide_text (one_slide ''The tool is mandatory.'' e)))) = None"
    unfolding join_one_slide using assms by simp
qed

subsection \<open>Two note sentences, the second one reported\<close>

lemma limit_sentences:
  "split_into_sentences ''The tool is fine today. The limit is never 5 items.'' =
     [''The tool is fine today'', ''The limit is never 5 items.'']"
  "split_into_sentences ''The limit is always 20 items.'' = [''The limit is always 20 items.'']"
  by code_simp+

lemma limit_numbers:
  "find_numbers ''The tool is fine today'' = []"
  "find_numbers ''The limit is never 5 items.'' = [''5'']"
  "find_numbers ''The limit is always 20 items.'' = [''20'']"
  by code_simp+

lemma limit_antonyms:
  "antonym_loop (lower ''The tool is fine today'') (lower ''The limit is always 20 items.'')
     contradiction_words 0 = 0"
  "antonym_loop (lower ''The limit is never 5 items.'') (lower ''The limit is always 20 items.'')
     contradiction_words 0 = 3/10"
  by code_simp+

lemma limit_scores:
  "check_contradiction unit_encode ''The tool is fine today'' ''The limit is always 20 items.'' = 0"
  "check_contradiction unit_encode ''The limit is never 5 items.''
     ''The limit is always 20 items.'' = 7/10"
  unfolding check_contradiction_def limit_numbers limit_antonyms Let_def embed_def
    similarity_unit_encode
  by simp_all

lemma limit_detect:
  "detect False no_llm unit_encode ''The tool is fine today. The limit is never 5 items.''
     (one_slide ''The limit is always 20 items.'' [1]) =
   Inr [\<lparr>note_text = ''The limit is never 5 items.'',
          suggestion = ''The limit is always 20 items.'', position = 1\<rparr>]"
  unfolding detect_def join_one_slide limit_sentences Let_def embed_batch_def
  by (simp add: enumerate_eq_zip check_note_def py_nth_def similarity_unit_encode
      limit_scores contradiction_threshold_def extract_correction_def upt_rec [of 0] upt_rec [of 1])

lemma limit_lecture_sentences:
  "lecture_sentences_of (one_slide ''The limit is always 20 items.'' e) =
     [''The limit is always 20 items.'']"
  unfolding lecture_sentences_of_def join_one_slide by (rule limit_sentences)

lemma limit_best_match:
  "best_match unit_encode [''The limit is always 20 items.''] ''The limit is never 5 items.''
     = (1, 0)"
  by (simp add: best_match_def embed_batch_def enumerate_eq_zip similarity_unit_encode)


section \<open>Misconception detector: the numeric rule and the correction text\<close>

lemma antonym_loop_ge: "s \<le> antonym_loop n l ws s"
proof (induction n l ws s rule: antonym_loop.induct)
  case (1 n l s)
  then show ?case by simp
next
  case (2 n l neg_word pos_word rest s)
  show ?case
  proof (cases "contains neg_word n \<and> contains pos_word l")
    case True
    with "2.IH"(1) have "s + 0.3 \<le> antonym_loop n l rest (s + 0.3)" by simp
    with True show ?thesis by simp
  next
    case False
    show ?thesis
    proof (cases "contains pos_word n \<and> contains neg_word l")
      case True
      with "2.IH"(2) False have "s + 0.3 \<le> antonym_loop n l rest (s + 0.3)" by simp
      with True False show ?thesis by auto
    next
      case no: False
      with "2.IH"(3) False have "s \<le> antonym_loop n l rest s" by simp
      with no False show ?thesis by auto
    qed
  qed
qed

lemma check_contradiction_disjoint_numbers:
  assumes "find_numbers n \<noteq> []" "find_numbers r \<noteq> []"
    and "set (find_numbers n) \<inter> set (find_numbers r) = {}"
    and "0.6 < similarity (embed encode n) (embed encode r)"
  shows "0.4 \<le> check_contradiction encode n r"
proof -
  have "0 \<le> antonym_loop (lower n) (lower r) contradiction_words 0"
    by (rule antonym_loop_ge)
  then show ?thesis
    using assms by (simp add: check_contradiction_def Let_def)
qed

lemma best_match_loop_inv:
  assumes "best_match_loop e (enumerate k es) (m0, b0) = (mx, b)"
  shows "m0 \<le> mx \<and> (\<forall>x\<in>set es. similarity e x \<le> mx) \<and>
         ((mx, b) = (m0, b0) \<or>
          (m0 < mx \<and> int k \<le> b \<and> b < int (k + length es) \<and>
           similarity e (es ! (nat b - k)) = mx \<and>
           (\<forall>j<nat b - k. similarity e (es ! j) < mx)))"
  using assms
proof (induction es arbitrary: k m0 b0)
  case Nil
  then show ?case by simp
next
  case (Cons x xs)
  show ?case
  proof (cases "similarity e x > m0")
    case True
    with Cons.prems
    have run: "best_match_loop e (enumerate (Suc k) xs) (similarity e x, int k) = (mx, b)"
      by simp
    note IH = Cons.IH [OF run]
    from IH have le: "similarity e x \<le> mx" by simp
    from IH consider "(mx, b) = (similarity e x, int k)"
      | "similarity e x < mx" "int (Suc k) \<le> b" "b < int (Suc k + length xs)"
        "similarity e (xs ! (nat b - Suc k)) = mx"
        "\<forall>j<nat b - Suc k. similarity e (xs ! j) < mx"
      by blast
    then have "m0 < mx \<and> int k \<le> b \<and> b < int (k + length (x # xs)) \<and>
           similarity e ((x # xs) ! (nat b - k)) = mx \<and>
           (\<forall>j<nat b - k. similarity e ((x # xs) ! j) < mx)"
    proof cases
      case 1
      with True show ?thesis by simp
    next
      case 2
      then have idx: "nat b - k = Suc (nat b - Suc k)" by linarith
      have "similarity e ((x # xs) ! j) < mx" if "j < nat b - k" for j
        using that 2 idx by (cases j) simp_all
      with 2 True idx show ?thesis by simp
    qed
    with IH le True show ?thesis by auto
  next
    case False
    with Cons.prems
    have run: "best_match_loop e (enumerate (Suc k) xs) (m0, b0) = (mx, b)"
      by simp
    note IH = Cons.IH [OF run]
    from IH consider "(mx, b) = (m0, b0)"
      | "m0 < mx" "int (Suc k) \<le> b" "b < int (Suc k + length xs)"
        "similarity e (xs ! (nat b - Suc k)) = mx"
        "\<forall>j<nat b - Suc k. similarity e (xs ! j) < mx"
      by blast
    then have "(mx, b) = (m0, b0) \<or> (m0 < mx \<and> int k \<le> b \<and> b < int (k + length (x # xs)) \<and>
           similarity e ((x # xs) ! (nat b - k)) = mx \<and>
           (\<forall>j<nat b - k. similarity e ((x # xs) ! j) < mx))"
    proof cases
      case 1
      then show ?thesis by simp
    next
      case 2
      then have idx: "nat b - k = Suc (nat b - Suc k)" by linarith
      have "similarity e ((x # xs) ! j) < mx" if "j < nat b - k" for j
        using that 2 idx False by (cases j) simp_all
      with 2 idx show ?thesis by simp
    qed
    with IH False show ?thesis by auto
  qed
qed

text \<open>
  The pair the inner loop ends with: a similarity above 0 comes with the index of the
  first lecture sentence that has this similarity to the note sentence, and no lecture
  sentence has a greater one.
\<close>

lemma best_match_spec:
  assumes "best_match encode ls n = (mx, b)"
  shows "0 \<le> mx \<and> (\<forall>r\<in>set ls. similarity (encode n) (encode r) \<le> mx) \<and>
         (0 < mx \<longrightarrow> 0 \<le> b \<and> b < int (length ls) \<and>
            similarity (encode n) (encode (ls ! nat b)) = mx \<and>
            (\<forall>j<nat b. similarity (encode n) (encode (ls ! j)) < mx))"
proof -
  from assms have "best_match_loop (encode n) (enumerate 0 (map encode ls)) (0, - 1) = (mx, b)"
    by (simp add: best_match_def embed_batch_def)
  from best_match_loop_inv [OF this]
  have inv: "0 \<le> mx" "\<forall>x\<in>set (map encode ls). similarity (encode n) x \<le> mx"
    "(mx, b) = (0, - 1) \<or>
     (0 < mx \<and> 0 \<le> b \<and> b < int (length ls) \<and>
      similarity (encode n) (map encode ls ! nat b) = mx \<and>
      (\<forall>j<nat b. similarity (encode n) (map encode ls ! j) < mx))"
    by simp_all
  have "0 \<le> b \<and> b < int (length ls) \<and> similarity (encode n) (encode (ls ! nat b)) = mx \<and>
        (\<forall>j<nat b. similarity (encode n) (encode (ls ! j)) < mx)"
    if "0 < mx"
  proof -
    from that inv(3) have *: "0 \<le> b" "b < int (length ls)"
      "similarity (encode n) (map encode ls ! nat b) = mx"
      "\<forall>j<nat b. similarity (encode n) (map encode ls ! j) < mx" by auto
    from *(1,2) have lt: "nat b < length ls" by linarith
    have "similarity (encode n) (encode (ls ! j)) < mx" if "j < nat b" for j
    proof -
      from that lt have "j < length ls" by simp
      with *(4) that show ?thesis by auto
    qed
    with * lt show ?thesis by simp
  qed
  with inv(1,2) show ?thesis by auto
qed

lemma check_note_heuristic_eq:
  assumes "i < length ns"
  shows "check_note False llm encode lt ls (embed_batch encode ns) (embed_batch encode ls)
           (i, ns ! i) =
     Inr (if 0.5 < fst (best_match encode ls (ns ! i)) \<and>
             contradiction_threshold <
               check_contradiction encode (ns ! i)
                 (ls ! nat (snd (best_match encode ls (ns ! i))))
          then [\<lparr>note_text = ns ! i,
                  suggestion = take 200 (ls ! nat (snd (best_match encode ls (ns ! i)))),
                  position = int i\<rparr>]
          else [])"
proof -
  obtain mx b where bm: "best_match encode ls (ns ! i) = (mx, b)"
    by (cases "best_match encode ls (ns ! i)")
  have nth: "py_nth (embed_batch encode ns) (int i) = Inr (encode (ns ! i))"
    using assms by (simp add: py_nth_def embed_batch_def)
  have loop: "best_match_loop (encode (ns ! i)) (enumerate 0 (embed_batch encode ls)) (0, - 1)
      = (mx, b)"
    using bm by (simp add: best_match_def)
  note spec = best_match_spec [OF bm]
  show ?thesis
  proof (cases "0.5 < mx")
    case True
    with spec have b: "0 \<le> b" "b < int (length ls)" by auto
    then have "py_nth ls b = Inr (ls ! nat b)" by (simp add: py_nth_def)
    with True b show ?thesis
      by (simp add: check_note_def nth loop bm Let_def extract_correction_def)
  next
    case False
    then show ?thesis
      by (simp add: check_note_def nth loop bm)
  qed
qed

lemma detect_loop_concat:
  assumes "\<forall>p\<in>set ps. body p = Inr (f p)"
  shows "detect_loop body ps acc = Inr (acc @ concat (map f ps))"
  using assms by (induction ps arbitrary: acc) simp_all

lemma detect_heuristic_eq:
  "detect False llm encode notes_text slide_data =
     Inr (concat (map
       (\<lambda>(i, n).
          if 0.5 < fst (best_match encode
                 (split_into_sentences (join '' '' (map slide_text slide_data))) n) \<and>
             contradiction_threshold <
               check_contradiction encode n
                 (split_into_sentences (join '' '' (map slide_text slide_data)) !
                    nat (snd (best_match encode
                      (split_into_sentences (join '' '' (map slide_text slide_data))) n)))
          then [\<lparr>note_text = n,
                  suggestion = take 200
                    (split_into_sentences (join '' '' (map slide_text slide_data)) !
                       nat (snd (best_match encode
                         (split_into_sentences (join '' '' (map slide_text slide_data))) n))),
                  position = int i\<rparr>]
          else [])
       (enumerate 0 (split_into_sentences notes_text))))"
proof -
  let ?ns = "split_into_sentences notes_text"
  let ?lt = "join '' '' (map slide_text slide_data)"
  let ?ls = "split_into_sentences ?lt"
  let ?f = "\<lambda>(i, n).
          if 0.5 < fst (best_match encode ?ls n) \<and>
             contradiction_threshold <
               check_contradiction encode n (?ls ! nat (snd (best_match encode ?ls n)))
          then [\<lparr>note_text = n,
                  suggestion = take 200 (?ls ! nat (snd (best_match encode ?ls n))),
                  position = int i\<rparr>]
          else []"
  let ?body = "check_note False llm encode ?lt ?ls (embed_batch encode ?ns)
                 (embed_batch encode ?ls)"
  have "\<forall>p\<in>set (enumerate 0 ?ns). ?body p = Inr (?f p)"
  proof
    fix p assume "p \<in> set (enumerate 0 ?ns)"
    then have "fst p < length ?ns" "snd p = ?ns ! fst p"
      by (simp_all add: in_set_enumerate_eq)
    then obtain i where p: "p = (i, ?ns ! i)" "i < length ?ns"
      by (cases p) simp
    show "?body p = Inr (?f p)"
      unfolding p(1) using check_note_heuristic_eq [OF p(2), of llm encode ?lt ?ls]
      by simp
  qed
  from detect_loop_concat [OF this, of "[]"]
  show ?thesis by (simp add: detect_def Let_def)
qed

lemma detect_heuristic_entries:
  assumes "detect False llm encode notes_text slide_data = Inr ms"
  shows "set ms =
     {\<lparr>note_text = split_into_sentences notes_text ! i,
        suggestion = take 200 (lecture_sentences_of slide_data !
          nat (snd (best_match encode (lecture_sentences_of slide_data)
                 (split_into_sentences notes_text ! i)))),
        position = int i\<rparr> | i.
      i < length (split_into_sentences notes_text) \<and>
      0.5 < fst (best_match encode (lecture_sentences_of slide_data)
                 (split_into_sentences notes_text ! i)) \<and>
      contradiction_threshold <
        check_contradiction encode (split_into_sentences notes_text ! i)
          (lecture_sentences_of slide_data !
             nat (snd (best_match encode (lecture_sentences_of slide_data)
                    (split_into_sentences notes_text ! i))))}"
proof -
  have "ms = projr (detect False llm encode notes_text slide_data)"
    by (simp only: assms sum.sel)
  then show ?thesis
    unfolding detect_heuristic_eq lecture_sentences_of_def sum.sel
    by (auto simp: in_set_enumerate_eq split: if_splits)
qed

section \<open>Misconception detector: the claims\<close>

text \<open>
  C3, as the code has it. For the note sentence "The risk score ranges from 1 to 5."
  paired with the reference sentence "The risk score ranges from 1 to 20." the numeric
  tokens are 1, 5. and 1, 20.; they share the token 1, so the 0.4 increment is not
  applied whatever the similarity of the re-embedded pair. The heuristic score is 0 and
  the pair is not reported, by the heuristic branch or by the fallback taken when the
  language-model request raises. What the scenario was meant to show holds of pairs
  with no numeric token in common: when both sentences have numeric tokens, none
  shared, and the re-embedded similarity exceeds 0.6, the heuristic score is at least
  0.4; when such a reference sentence is the best match of a note sentence, with
  similarity above 0.5, the heuristic branch reports the note sentence, and the
  correction is that reference sentence cut to 200 characters. The entries the
  heuristic branch reports are exactly those of the note sentences whose best match has
  similarity above 0.5 and a score above the threshold, each with its best-matching
  reference sentence cut to 200 characters as correction. The best match is the first
  reference sentence of greatest similarity to the note sentence.
\<close>

theorem risk_score_pair_not_flagged:
  "check_contradiction encode ''The risk score ranges from 1 to 5.''
     ''The risk score ranges from 1 to 20.'' = 0 \<and>
   (\<not> use_llm \<or> llm ''The risk score ranges from 1 to 5.''
        ''The risk score ranges from 1 to 20.'' ''The risk score ranges from 1 to 20.'' = None
    \<longrightarrow> detect use_llm llm encode ''The risk score ranges from 1 to 5.''
          (one_slide ''The risk score ranges from 1 to 20.'' e) = Inr []) \<and>
   (find_numbers n \<noteq> [] \<and> find_numbers r \<noteq> [] \<and>
    set (find_numbers n) \<inter> set (find_numbers r) = {} \<and>
    0.6 < similarity (embed encode n) (embed encode r)
    \<longrightarrow> 0.4 \<le> check_contradiction encode n r) \<and>
   (detect False llm encode notes_text slide_data = Inr ms \<and>
    i < length (split_into_sentences notes_text) \<and>
    best_match encode (lecture_sentences_of slide_data) (split_into_sentences notes_text ! i)
      = (mx, b) \<and>
    0.5 < mx \<and>
    find_numbers (split_into_sentences notes_text ! i) \<noteq> [] \<and>
    find_numbers (lecture_sentences_of slide_data ! nat b) \<noteq> [] \<and>
    set (find_numbers (split_into_sentences notes_text ! i)) \<inter>
      set (find_numbers (lecture_sentences_of slide_data ! nat b)) = {} \<and>
    0.6 < similarity (embed encode (split_into_sentences notes_text ! i))
            (embed encode (lecture_sentences_of slide_data ! nat b))
    \<longrightarrow> \<lparr>note_text = split_into_sentences notes_text ! i,
          suggestion = take 200 (lecture_sentences_of slide_data ! nat b),
          position = int i\<rparr> \<in> set ms) \<and>
   (detect False llm encode notes_text slide_data = Inr ms
    \<longrightarrow> set ms =
     {\<lparr>note_text = split_into_sentences notes_text ! j,
        suggestion = take 200 (lecture_sentences_of slide_data !
          nat (snd (best_match encode (lecture_sentences_of slide_data)
                 (split_into_sentences notes_text ! j)))),
        position = int j\<rparr> | j.
      j < length (split_into_sentences notes_text) \<and>
      0.5 < fst (best_match encode (lecture_sentences_of slide_data)
                 (split_into_sentences notes_text ! j)) \<and>
      contradiction_threshold <
        check_contradiction encode (split_into_sentences notes_text ! j)
          (lecture_sentences_of slide_data !
             nat (snd (best_match encode (lecture_sentences_of slide_data)
                    (split_into_sentences notes_text ! j))))}) \<and>
   (best_match encode lecture_sentences note_sentence = (sim, idx)
    \<longrightarrow> (\<forall>s\<in>set lecture_sentences.
           similarity (encode note_sentence) (encode s) \<le> sim) \<and>
        (0 < sim \<longrightarrow> 0 \<le> idx \<and> idx < int (length lecture_sentences) \<and>
           similarity (encode note_sentence) (encode (lecture_sentences ! nat idx)) = sim \<and>
           (\<forall>j<nat idx.
              similarity (encode note_sentence) (encode (lecture_sentences ! j)) < sim)))"
proof (intro conjI impI)
  show "check_contradiction encode ''The risk score ranges from 1 to 5.''
     ''The risk score ranges from 1 to 20.'' = 0"
    by (rule risk_score_zero)
  show "detect use_llm llm encode ''The risk score ranges from 1 to 5.''
          (one_slide ''The risk score ranges from 1 to 20.'' e) = Inr []"
    if "\<not> use_llm \<or> llm ''The risk score ranges from 1 to 5.''
        ''The risk score ranges from 1 to 20.'' ''The risk score ranges from 1 to 20.'' = None"
    using that by (rule risk_detect)
  show "0.4 \<le> check_contradiction encode n r"
    if "find_numbers n \<noteq> [] \<and> find_numbers r \<noteq> [] \<and>
        set (find_numbers n) \<inter> set (find_numbers r) = {} \<and>
        0.6 < similarity (embed encode n) (embed encode r)"
    using that by (intro check_contradiction_disjoint_numbers) simp_all
  show "\<lparr>note_text = split_into_sentences notes_text ! i,
          suggestion = take 200 (lecture_sentences_of slide_data ! nat b),
          position = int i\<rparr> \<in> set ms"
    if h: "detect False llm encode notes_text slide_data = Inr ms \<and>
      i < length (split_into_sentences notes_text) \<and>
      best_match encode (lecture_sentences_of slide_data) (split_into_sentences notes_text ! i)
        = (mx, b) \<and>
      0.5 < mx \<and>
      find_numbers (split_into_sentences notes_text ! i) \<noteq> [] \<and>
      find_numbers (lecture_sentences_of slide_data ! nat b) \<noteq> [] \<and>
      set (find_numbers (split_into_sentences notes_text ! i)) \<inter>
        set (find_numbers (lecture_sentences_of slide_data ! nat b)) = {} \<and>
      0.6 < similarity (embed encode (split_into_sentences notes_text ! i))
              (embed encode (lecture_sentences_of slide_data ! nat b))"
  proof -
    from h have "0.4 \<le> check_contradiction encode (split_into_sentences notes_text ! i)
        (lecture_sentences_of slide_data ! nat b)"
      by (intro check_contradiction_disjoint_numbers) simp_all
    then have score: "contradiction_threshold <
        check_contradiction encode (split_into_sentences notes_text ! i)
          (lecture_sentences_of slide_data ! nat b)"
      by (simp add: contradiction_threshold_def)
    from h have d: "detect False llm encode notes_text slide_data = Inr ms"
      and i: "i < length (split_into_sentences notes_text)"
      and bm: "best_match encode (lecture_sentences_of slide_data)
          (split_into_sentences notes_text ! i) = (mx, b)"
      and mx: "0.5 < mx"
      by simp_all
    show ?thesis
      unfolding detect_heuristic_entries [OF d]
      using i mx score by (auto simp: bm intro!: exI [of _ i])
  qed
  show "set ms =
     {\<lparr>note_text = split_into_sentences notes_text ! j,
        suggestion = take 200 (lecture_sentences_of slide_data !
          nat (snd (best_match encode (lecture_sentences_of slide_data)
                 (split_into_sentences notes_text ! j)))),
        position = int j\<rparr> | j.
      j < length (split_into_sentences notes_text) \<and>
      0.5 < fst (best_match encode (lecture_sentences_of slide_data)
                 (split_into_sentences notes_text ! j)) \<and>
      contradiction_threshold <
        check_contradiction encode (split_into_sentences notes_text ! j)
          (lecture_sentences_of slide_data !
             nat (snd (best_match encode (lecture_sentences_of slide_data)
                    (split_into_sentences notes_text ! j))))}"
    if "detect False llm encode notes_text slide_data = Inr ms"
    using that by (rule detect_heuristic_entries)
  show "\<forall>s\<in>set lecture_sentences. similarity (encode note_sentence) (encode s) \<le> sim"
    if "best_match encode lecture_sentences note_sentence = (sim, idx)"
    using best_match_spec [OF that] by simp
  show "0 \<le> idx" "idx < int (length lecture_sentences)"
    "similarity (encode note_sentence) (encode (lecture_sentences ! nat idx)) = sim"
    "\<forall>j<nat idx. similarity (encode note_sentence) (encode (lecture_sentences ! j)) < sim"
    if "best_match encode lecture_sentences note_sentence = (sim, idx)" "0 < sim"
    using best_match_spec [OF that(1)] that(2) by simp_all
qed

text \<open>
  The general parts on the notes "The tool is fine today. The limit is never 5 items."
  against the slide "The limit is always 20 items.": the tokens 5 and 20 differ, the
  score is at least 0.4, the reference sentence is the best match of the second note
  sentence, and the entry reported for it carries that reference sentence.
\<close>

theorem risk_score_pair_not_flagged_witness:
  "no_llm ''The risk score ranges from 1 to 5.''
     ''The risk score ranges from 1 to 20.'' ''The risk score ranges from 1 to 20.'' = None \<and>
   check_contradiction unit_encode ''The risk score ranges from 1 to 5.''
     ''The risk score ranges from 1 to 20.'' = 0 \<and>
   detect True no_llm unit_encode ''The risk score ranges from 1 to 5.''
     (one_slide ''The risk score ranges from 1 to 20.'' [1]) = Inr [] \<and>
   find_numbers ''The limit is never 5 items.'' = [''5''] \<and>
   find_numbers ''The limit is always 20 items.'' = [''20''] \<and>
   0.6 < similarity (embed unit_encode ''The limit is never 5 items.'')
           (embed unit_encode ''The limit is always 20 items.'') \<and>
   0.4 \<le> check_contradiction unit_encode ''The limit is never 5 items.''
           ''The limit is always 20 items.'' \<and>
   split_into_sentences ''The tool is fine today. The limit is never 5 items.'' =
     [''The tool is fine today'', ''The limit is never 5 items.''] \<and>
   lecture_sentences_of (one_slide ''The limit is always 20 items.'' [1]) =
     [''The limit is always 20 items.''] \<and>
   best_match unit_encode [''The limit is always 20 items.''] ''The limit is never 5 items.''
     = (1, 0) \<and>
   detect False no_llm unit_encode ''The tool is fine today. The limit is never 5 items.''
     (one_slide ''The limit is always 20 items.'' [1]) =
     Inr [\<lparr>note_text = ''The limit is never 5 items.'',
            suggestion = ''The limit is always 20 items.'', position = 1\<rparr>] \<and>
   \<lparr>note_text = ''The limit is never 5 items.'',
     suggestion = take 200 ''The limit is always 20 items.'', position = 1\<rparr>
     \<in> set [\<lparr>note_text = ''The limit is never 5 items.'',
            suggestion = ''The limit is always 20 items.'', position = 1\<rparr>] \<and>
   similarity (unit_encode ''The limit is never 5 items.'')
     (unit_encode ''The limit is always 20 items.'') = 1"
proof -
  let ?N = "''The tool is fine today. The limit is never 5 items.''"
  let ?n = "''The limit is never 5 items.''"
  let ?L = "''The limit is always 20 items.''"
  let ?entry = "\<lparr>note_text = ?n, suggestion = ?L, position = 1\<rparr>"
  note inst = risk_score_pair_not_flagged [where encode = unit_encode and use_llm = True
      and llm = no_llm and e = "[1]" and n = ?n and r = ?L
      and notes_text = ?N and slide_data = "one_slide ?L [1]" and ms = "[?entry]"
      and i = 1 and mx = 1 and b = 0
      and lecture_sentences = "[?L]" and note_sentence = ?n and sim = 1 and idx = 0]
  have none: "no_llm ''The risk score ranges from 1 to 5.''
     ''The risk score ranges from 1 to 20.'' ''The risk score ranges from 1 to 20.'' = None"
    by (simp add: no_llm_def)
  from inst have score: "check_contradiction unit_encode ''The risk score ranges from 1 to 5.''
     ''The risk score ranges from 1 to 20.'' = 0"
    by (rule conjunct1)
  from inst none have unflagged: "detect True no_llm unit_encode
     ''The risk score ranges from 1 to 5.''
     (one_slide ''The risk score ranges from 1 to 20.'' [1]) = Inr []"
    by simp
  have sim: "similarity (embed unit_encode ?n) (embed unit_encode ?L) = 1"
    unfolding embed_def by (rule similarity_unit_encode)
  have above: "0.6 < similarity (embed unit_encode ?n) (embed unit_encode ?L)"
    unfolding sim by simp
  have nonempty: "find_numbers ?n \<noteq> []" "find_numbers ?L \<noteq> []"
    unfolding limit_numbers by simp_all
  have disjoint: "set (find_numbers ?n) \<inter> set (find_numbers ?L) = {}"
    unfolding limit_numbers by simp
  from inst have rule3: "find_numbers ?n \<noteq> [] \<and> find_numbers ?L \<noteq> [] \<and>
      set (find_numbers ?n) \<inter> set (find_numbers ?L) = {} \<and>
      0.6 < similarity (embed unit_encode ?n) (embed unit_encode ?L)
      \<longrightarrow> 0.4 \<le> check_contradiction unit_encode ?n ?L"
    by (elim conjE)
  with nonempty disjoint above
  have atleast: "0.4 \<le> check_contradiction unit_encode ?n ?L" by simp
  have nth: "split_into_sentences ?N ! 1 = ?n"
    unfolding limit_sentences by simp
  have lnth: "lecture_sentences_of (one_slide ?L [1]) ! nat 0 = ?L"
    unfolding limit_lecture_sentences by simp
  from inst have rule4: "detect False no_llm unit_encode ?N (one_slide ?L [1]) = Inr [?entry] \<and>
      1 < length (split_into_sentences ?N) \<and>
      best_match unit_encode (lecture_sentences_of (one_slide ?L [1]))
        (split_into_sentences ?N ! 1) = (1, 0) \<and>
      0.5 < (1::real) \<and>
      find_numbers (split_into_sentences ?N ! 1) \<noteq> [] \<and>
      find_numbers (lecture_sentences_of (one_slide ?L [1]) ! nat 0) \<noteq> [] \<and>
      set (find_numbers (split_into_sentences ?N ! 1)) \<inter>
        set (find_numbers (lecture_sentences_of (one_slide ?L [1]) ! nat 0)) = {} \<and>
      0.6 < similarity (embed unit_encode (split_into_sentences ?N ! 1))
              (embed unit_encode (lecture_sentences_of (one_slide ?L [1]) ! nat 0))
      \<longrightarrow> \<lparr>note_text = split_into_sentences ?N ! 1,
            suggestion = take 200 (lecture_sentences_of (one_slide ?L [1]) ! nat 0),
            position = int 1\<rparr> \<in> set [?entry]"
    by (elim conjE)
  have len: "1 < length (split_into_sentences ?N)"
    unfolding limit_sentences by simp
  have bm: "best_match unit_encode (lecture_sentences_of (one_slide ?L [1]))
        (split_into_sentences ?N ! 1) = (1, 0)"
    unfolding nth limit_lecture_sentences by (rule limit_best_match)
  from rule4 limit_detect len bm nonempty disjoint above
  have "\<lparr>note_text = split_into_sentences ?N ! 1,
            suggestion = take 200 (lecture_sentences_of (one_slide ?L [1]) ! nat 0),
            position = int 1\<rparr> \<in> set [?entry]"
    unfolding nth lnth by simp
  then have reported: "\<lparr>note_text = ?n, suggestion = take 200 ?L, position = 1\<rparr>
      \<in> set [?entry]"
    unfolding nth lnth by simp
  from inst have rule6: "best_match unit_encode [?L] ?n = (1, 0)
    \<longrightarrow> (\<forall>s\<in>set [?L]. similarity (unit_encode ?n) (unit_encode s) \<le> 1) \<and>
        (0 < (1::real) \<longrightarrow> 0 \<le> (0::int) \<and> (0::int) < int (length [?L]) \<and>
           similarity (unit_encode ?n) (unit_encode ([?L] ! nat 0)) = 1 \<and>
           (\<forall>j<nat 0. similarity (unit_encode ?n) (unit_encode ([?L] ! j)) < 1))"
    by (elim conjE)
  with limit_best_match
  have best: "similarity (unit_encode ?n) (unit_encode ?L) = 1" by simp
  from none score unflagged limit_numbers(2,3) above atleast limit_sentences(1)
    limit_lecture_sentences [of "[1]"] limit_best_match limit_detect reported best
  show ?thesis by (intro conjI)
qed

text \<open>
  C3 as the specification states it fails: with an encoder under which the re-embedded
  pair has similarity 1, above 0.6, the score is 0, below 0.4, and nothing is reported.
\<close>

theorem risk_score_pair_counterexample:
  "0.6 < similarity (embed unit_encode ''The risk score ranges from 1 to 5.'')
           (embed unit_encode ''The risk score ranges from 1 to 20.'') \<and>
   \<not> 0.4 \<le> check_contradiction unit_encode ''The risk score ranges from 1 to 5.''
           ''The risk score ranges from 1 to 20.'' \<and>
   detect False no_llm unit_encode ''The risk score ranges from 1 to 5.''
     (one_slide ''The risk score ranges from 1 to 20.'' [1]) = Inr []"
proof -
  have "similarity (embed unit_encode ''The risk score ranges from 1 to 5.'')
           (embed unit_encode ''The risk score ranges from 1 to 20.'') = 1"
    unfolding embed_def by (rule similarity_unit_encode)
  moreover have "check_contradiction unit_encode ''The risk score ranges from 1 to 5.''
           ''The risk score ranges from 1 to 20.'' = 0"
    by (rule risk_score_zero)
  moreover have "detect False no_llm unit_encode ''The risk score ranges from 1 to 5.''
     (one_slide ''The risk score ranges from 1 to 20.'' [1]) = Inr []"
    by (rule risk_detect) simp
  ultimately show ?thesis by simp
qed

text \<open>
  C4, as the code has it. For the note sentence "The tool is not mandatory." paired with
  the reference sentence "The tool is mandatory." the antonym pair (not, is) is the only
  one to match and there are no numeric tokens: the heuristic score is exactly 0.3. The
  pair is reported when the score is strictly greater than 0.3, so it is not reported,
  by the heuristic branch or by the fallback taken when the language-model request
  raises.
\<close>

theorem tool_pair_not_flagged:
  "check_contradiction encode ''The tool is not mandatory.'' ''The tool is mandatory.'' = 3/10 \<and>
   (\<not> use_llm \<or> llm ''The tool is not mandatory.'' ''The tool is mandatory.''
        ''The tool is mandatory.'' = None
    \<longrightarrow> detect use_llm llm encode ''The tool is not mandatory.''
          (one_slide ''The tool is mandatory.'' e) = Inr [])"
  using tool_score tool_detect by blast

theorem tool_pair_not_flagged_witness:
  "no_llm ''The tool is not mandatory.'' ''The tool is mandatory.''
     ''The tool is mandatory.'' = None \<and>
   check_contradiction unit_encode ''The tool is not mandatory.'' ''The tool is mandatory.''
     = 3/10 \<and>
   detect True no_llm unit_encode ''The tool is not mandatory.''
     (one_slide ''The tool is mandatory.'' [1]) = Inr []"
  using tool_pair_not_flagged [of unit_encode True no_llm "[1]"]
  by (simp add: no_llm_def)

text \<open>
  C4 as the specification states it fails: with an encoder under which the best-match
  similarity is 1, above 0.5, the score is at least 0.3 and nothing is reported.
\<close>

theorem tool_pair_counterexample:
  "0.5 < similarity (unit_encode ''The tool is not mandatory.'')
           (unit_encode ''The tool is mandatory.'') \<and>
   0.3 \<le> check_contradiction unit_encode ''The tool is not mandatory.''
           ''The tool is mandatory.'' \<and>
   detect False no_llm unit_encode ''The tool is not mandatory.''
     (one_slide ''The tool is mandatory.'' [1]) = Inr []"
proof -
  have "similarity (unit_encode ''The tool is not mandatory.'')
           (unit_encode ''The tool is mandatory.'') = 1"
    by (rule similarity_unit_encode)
  moreover have "check_contradiction unit_encode ''The tool is not mandatory.''
           ''The tool is mandatory.'' = 3/10"
    by (rule tool_score)
  moreover have "detect False no_llm unit_encode ''The tool is not mandatory.''
     (one_slide ''The tool is mandatory.'' [1]) = Inr []"
    by (rule tool_detect) simp
  ultimately show ?thesis by simp
qed

text \<open>
  C10. For every notes text and slide list, with or without the language model,
  \<open>detect\<close> returns a list and raises nothing; the list has at most one entry per
  split note sentence; the position of each entry is the 0-based index of its note
  sentence among the split note sentences; and the positions are strictly increasing
  along the list.
\<close>

theorem detect_one_candidate_per_sentence:
  "\<exists>ms. detect use_llm llm encode notes_text slide_data = Inr ms \<and>
     length ms \<le> length (split_into_sentences notes_text) \<and>
     sorted_wrt (<) (map position ms) \<and>
     distinct (map position ms) \<and>
     (\<forall>m\<in>set ms. 0 \<le> position m \<and>
        position m < int (length (split_into_sentences notes_text)) \<and>
        note_text m = split_into_sentences notes_text ! nat (position m))"
proof -
  from detect_result [of use_llm llm encode notes_text slide_data]
  obtain ms where ms: "detect use_llm llm encode notes_text slide_data = Inr ms"
    "length ms \<le> length (split_into_sentences notes_text)"
    "sorted_wrt (<) (map position ms)"
    "\<forall>m\<in>set ms. 0 \<le> position m \<and>
        position m < int (length (split_into_sentences notes_text)) \<and>
        note_text m = split_into_sentences notes_text ! nat (position m)"
    by blast
  from ms(3) have "distinct (map position ms)"
    by (simp add: strict_sorted_iff)
  with ms show ?thesis by blast
qed

text \<open>
  On the notes "The tool is fine today. The limit is never 5 items." against the slide
  "The limit is always 20 items." the second note sentence is reported, with position 1.
\<close>

theorem detect_one_candidate_per_sentence_witness:
  "\<exists>ms. detect False no_llm unit_encode
          ''The tool is fine today. The limit is never 5 items.''
          (one_slide ''The limit is always 20 items.'' [1]) = Inr ms \<and>
     ms = [\<lparr>note_text = ''The limit is never 5 items.'',
            suggestion = ''The limit is always 20 items.'', position = 1\<rparr>] \<and>
     length ms \<le> 2 \<and>
     sorted_wrt (<) (map position ms) \<and>
     distinct (map position ms) \<and>
     (\<forall>m\<in>set ms. 0 \<le> position m \<and> position m < 2 \<and>
        note_text m =
          [''The tool is fine today'', ''The limit is never 5 items.''] ! nat (position m))"
  using detect_one_candidate_per_sentence [of False no_llm unit_encode
      "''The tool is fine today. The limit is never 5 items.''"
      "one_slide ''The limit is always 20 items.'' [1]"]
  unfolding limit_detect limit_sentences
  by simp

section \<open>Sentence splitting\<close>

lemma has_boundary_snoc2:
  "has_boundary (xs @ [c, d]) = (has_boundary (xs @ [c]) \<or> (is_terminator c \<and> isspace d))"
  by (induction xs rule: has_boundary.induct) auto

lemma has_boundary_snoc:
  "has_boundary xs \<Longrightarrow> has_boundary (xs @ [c])"
  by (induction xs rule: has_boundary.induct) auto

lemma has_boundary_take1: "\<not> has_boundary (take 1 ys)"
  by (cases ys) simp_all

lemma split_from_no_boundary:
  assumes "\<not> has_boundary (cur @ take 1 s)"
  shows "\<forall>piece\<in>set (split_from cur s). \<not> has_boundary piece"
  using assms
proof (induction cur s rule: split_from.induct)
  case (1 cur)
  then show ?case by simp
next
  case (2 cur c)
  then show ?case by simp
next
  case (3 cur c d rest)
  show ?case
  proof (cases "is_terminator c \<and> isspace d")
    case True
    have "\<not> has_boundary cur"
      using "3.prems" has_boundary_snoc [of cur c] by auto
    moreover have "\<forall>piece\<in>set (split_from [] (dropWhile isspace rest)). \<not> has_boundary piece"
    proof (rule "3.IH"(1) [OF True])
      show "\<not> has_boundary ([] @ take 1 (dropWhile isspace rest))"
        using has_boundary_take1 [of "dropWhile isspace rest"] by simp
    qed
    ultimately show ?thesis using True by simp
  next
    case False
    have "\<not> has_boundary ((cur @ [c]) @ take 1 (d # rest))"
      using "3.prems" False by (simp add: has_boundary_snoc2)
    from "3.IH"(2) [OF False this] False show ?thesis by auto
  qed
qed

lemma split_from_not_empty: "split_from cur s \<noteq> []"
  by (induction cur s rule: split_from.induct) auto

lemma split_from_interleave:
  "\<exists>seps. length seps + 1 = length (split_from cur s) \<and>
          (\<forall>sep\<in>set seps. is_separator sep) \<and>
          interleave (split_from cur s) seps = cur @ s"
proof (induction cur s rule: split_from.induct)
  case (1 cur)
  show ?case by (rule exI [of _ "[]"]) simp
next
  case (2 cur c)
  show ?case by (rule exI [of _ "[]"]) simp
next
  case (3 cur c d rest)
  show ?case
  proof (cases "is_terminator c \<and> isspace d")
    case True
    from "3.IH"(1) [OF True] obtain seps where seps:
      "length seps + 1 = length (split_from [] (dropWhile isspace rest))"
      "\<forall>sep\<in>set seps. is_separator sep"
      "interleave (split_from [] (dropWhile isspace rest)) seps = dropWhile isspace rest"
      by auto
    let ?sep = "c # d # takeWhile isspace rest"
    have sep: "is_separator ?sep"
      using True by (auto simp: list_all_iff dest: set_takeWhileD)
    obtain p ps where ps: "split_from [] (dropWhile isspace rest) = p # ps"
      using split_from_not_empty [of "[]" "dropWhile isspace rest"]
      by (cases "split_from [] (dropWhile isspace rest)") auto
    have "interleave (split_from cur (c # d # rest)) (?sep # seps) = cur @ c # d # rest"
      using True seps(3) by (simp add: ps)
    moreover have "length (?sep # seps) + 1 = length (split_from cur (c # d # rest))"
      using True seps(1) by simp
    moreover have "\<forall>s\<in>set (?sep # seps). is_separator s"
      using sep seps(2) by simp
    ultimately show ?thesis by blast
  next
    case False
    from "3.IH"(2) [OF False] False show ?thesis by auto
  qed
qed

lemma split_into_sentences_filter:
  "split_into_sentences txt =
     map strip (filter (\<lambda>piece. 11 \<le> length (strip piece)) (re_split_sentences txt))"
proof -
  have "(\<lambda>s. length (strip s) > 10) = (\<lambda>piece. 11 \<le> length (strip piece))"
    by (rule ext) arith
  then show ?thesis by (simp add: split_into_sentences_def)
qed


section \<open>Sentence splitting: the claim\<close>

lemma split_example_pieces:
  "re_split_sentences ''abcdefghij. abcdefghijk'' = [''abcdefghij'', ''abcdefghijk'']"
  by code_simp

lemma split_example_sentences:
  "split_into_sentences ''abcdefghij. abcdefghijk'' = [''abcdefghijk'']"
  by code_simp

lemma split_ten_characters:
  "re_split_sentences ''abcdefghij'' = [''abcdefghij'']"
  "strip ''abcdefghij'' = ''abcdefghij''"
  "split_into_sentences ''abcdefghij'' = []"
  by code_simp+

text \<open>
  C8, as the code has it. The text is cut at every terminator (full stop, exclamation
  mark, question mark) followed by white space: no piece contains a terminator followed
  by a white-space character, and the pieces with separators put back between them are
  the text. The sentences returned are the trimmed pieces whose trimmed length is
  greater than 10, in order: a piece is kept exactly when its trimmed length is 11 or
  more, and a piece of trimmed length 10 or less is discarded.
\<close>

theorem split_into_sentences_keeps_over_ten:
  "split_into_sentences txt =
     map strip (filter (\<lambda>piece. 11 \<le> length (strip piece)) (re_split_sentences txt)) \<and>
   (\<forall>piece\<in>set (re_split_sentences txt).
      (strip piece \<in> set (split_into_sentences txt)) = (11 \<le> length (strip piece))) \<and>
   (\<forall>piece\<in>set (re_split_sentences txt). \<not> has_boundary piece) \<and>
   (\<exists>seps. length seps + 1 = length (re_split_sentences txt) \<and>
           (\<forall>sep\<in>set seps. is_separator sep) \<and>
           interleave (re_split_sentences txt) seps = txt)"
proof -
  have eq: "split_into_sentences txt =
     map strip (filter (\<lambda>piece. 11 \<le> length (strip piece)) (re_split_sentences txt))"
    by (rule split_into_sentences_filter)
  have kept: "\<forall>piece\<in>set (re_split_sentences txt).
      (strip piece \<in> set (split_into_sentences txt)) = (11 \<le> length (strip piece))"
    unfolding eq by auto
  have "\<not> has_boundary ([] @ take 1 txt)"
    using has_boundary_take1 [of "txt"] by simp
  then have cut: "\<forall>piece\<in>set (re_split_sentences txt). \<not> has_boundary piece"
    unfolding re_split_sentences_def by (rule split_from_no_boundary)
  have joined: "\<exists>seps. length seps + 1 = length (re_split_sentences txt) \<and>
           (\<forall>sep\<in>set seps. is_separator sep) \<and>
           interleave (re_split_sentences txt) seps = txt"
    using split_from_interleave [of "[]" "txt"] by (simp add: re_split_sentences_def)
  from eq kept cut joined show ?thesis by blast
qed

text \<open>
  The text "abcdefghij. abcdefghijk" has the pieces "abcdefghij", of length 10, and
  "abcdefghijk", of length 11; only the second is returned.
\<close>

theorem split_into_sentences_keeps_over_ten_witness:
  "re_split_sentences ''abcdefghij. abcdefghijk'' = [''abcdefghij'', ''abcdefghijk''] \<and>
   split_into_sentences ''abcdefghij. abcdefghijk'' = [''abcdefghijk''] \<and>
   \<not> has_boundary ''abcdefghij'' \<and> \<not> has_boundary ''abcdefghijk'' \<and>
   (\<exists>seps. length seps + 1 = length [''abcdefghij'', ''abcdefghijk''] \<and>
           (\<forall>sep\<in>set seps. is_separator sep) \<and>
           interleave [''abcdefghij'', ''abcdefghijk''] seps = ''abcdefghij. abcdefghijk'')"
  using split_into_sentences_keeps_over_ten [of "''abcdefghij. abcdefghijk''"]
    split_example_pieces
  unfolding split_example_pieces split_example_sentences
  by simp

text \<open>
  C8 as the specification states it, with every piece of trimmed length 10 or more
  retained, fails on the text "abcdefghij": its only piece has trimmed length 10 and
  nothing is returned.
\<close>

theorem split_into_sentences_ten_counterexample:
  "''abcdefghij'' \<in> set (re_split_sentences ''abcdefghij'') \<and>
   10 \<le> length (strip ''abcdefghij'') \<and>
   strip ''abcdefghij'' \<notin> set (split_into_sentences ''abcdefghij'')"
  unfolding split_ten_characters by simp

section \<open>Concept filter and missing concepts\<close>

lemma last_dropWhile_nonempty:
  "dropWhile P xs \<noteq> [] \<Longrightarrow> last (dropWhile P xs) = last xs"
  by (induction xs) (auto split: if_splits)

lemma strip_ends:
  assumes "strip s \<noteq> []"
  shows "\<not> isspace (hd (strip s)) \<and> \<not> isspace (last (strip s))"
proof -
  let ?t = "dropWhile isspace s"
  let ?u = "dropWhile isspace (rev ?t)"
  have u: "?u \<noteq> []" using assms by (simp add: strip_def)
  then have t: "?t \<noteq> []" by (metis dropWhile.simps(1) rev.simps(1))
  have "last (strip s) = hd ?u" using u by (simp add: strip_def last_rev)
  moreover have "\<not> isspace (hd ?u)" using u by (rule hd_dropWhile)
  moreover have "hd (strip s) = last ?u" using u by (simp add: strip_def hd_rev)
  moreover have "last ?u = last (rev ?t)" using u by (rule last_dropWhile_nonempty)
  moreover have "last (rev ?t) = hd ?t" using t by (simp add: last_rev)
  moreover have "\<not> isspace (hd ?t)" using t by (rule hd_dropWhile)
  ultimately show ?thesis by simp
qed

lemma strip_fixed:
  assumes "s \<noteq> []" "\<not> isspace (hd s)" "\<not> isspace (last s)"
  shows "strip s = s"
proof -
  have "dropWhile isspace s = s" using assms by (simp add: dropWhile_eq_self_iff)
  moreover have "dropWhile isspace (rev s) = rev s"
    using assms by (simp add: dropWhile_eq_self_iff hd_rev)
  ultimately show ?thesis by (simp add: strip_def)
qed

lemma strip_numbering_ends:
  assumes "\<not> isspace (hd t)" "\<not> isspace (last t)" "strip_numbering t \<noteq> []"
  shows "\<not> isspace (hd (strip_numbering t)) \<and> \<not> isspace (last (strip_numbering t))"
proof (cases "takeWhile is_numbering_char t = []")
  case True
  then show ?thesis using assms by (simp add: strip_numbering_def)
next
  case False
  let ?r = "dropWhile isspace (dropWhile is_numbering_char t)"
  have r: "strip_numbering t = ?r" using False by (simp add: strip_numbering_def)
  with assms(3) have ne: "?r \<noteq> []" by simp
  then have ne': "dropWhile is_numbering_char t \<noteq> []" by (metis dropWhile.simps(1))
  have "\<not> isspace (hd ?r)" using ne by (rule hd_dropWhile)
  moreover have "last ?r = last t"
    using last_dropWhile_nonempty [OF ne] last_dropWhile_nonempty [OF ne'] by simp
  ultimately show ?thesis using r assms(2) by simp
qed

lemma strip_numbering_fixed:
  "\<not> starts_with_numbering s \<Longrightarrow> strip_numbering s = s"
  by (cases s) (simp_all add: strip_numbering_def starts_with_numbering_def)

lemma has_letter_run_nonempty: "has_letter_run s \<Longrightarrow> s \<noteq> []"
  by auto

text \<open>The checks the loop body applies to the cleaned concept.\<close>

lemma filter_concept_SomeD:
  assumes "filter_concept c = Some c'"
  shows "c' = strip_numbering (strip c) \<and> strip c \<noteq> [] \<and>
         \<not> (length c' < 6 \<and> \<not> has_digit c' \<and> \<not> search_capitalized False c') \<and>
         \<not> is_noise (lower c') \<and> split_words (lower c') \<noteq> [] \<and>
         \<not> (stopword_ratio (split_words (lower c')) > 0.65 \<and>
            length (split_words (lower c')) < 5) \<and>
         has_letter_run c'"
  using assms unfolding filter_concept_def Let_def
  by (auto split: if_splits)

lemma filter_concept_fixed:
  assumes "filter_concept c = Some c'" and "\<not> starts_with_numbering c'"
  shows "filter_concept c' = Some c'"
proof -
  note D = filter_concept_SomeD [OF assms(1)]
  from D have ne: "c' \<noteq> []" using has_letter_run_nonempty by blast
  from D have "strip c \<noteq> []" by simp
  from strip_ends [OF this]
  have "\<not> isspace (hd (strip c))" "\<not> isspace (last (strip c))" by simp_all
  from strip_numbering_ends [OF this] ne D
  have "\<not> isspace (hd c')" "\<not> isspace (last c')" by simp_all
  with ne have s: "strip c' = c'" by (rule strip_fixed)
  have n: "strip_numbering c' = c'" using assms(2) by (rule strip_numbering_fixed)
  show ?thesis
    unfolding filter_concept_def Let_def s n using D ne by auto
qed

lemma in_filter_concepts:
  "x \<in> filter_concepts S \<longleftrightarrow> (\<exists>c\<in>S. filter_concept c = Some x)"
  by (auto simp: filter_concepts_def in_these_eq intro: rev_image_eqI)

lemma filter_concepts_idem:
  assumes "\<forall>c\<in>filter_concepts S. \<not> starts_with_numbering c"
  shows "filter_concepts (filter_concepts S) = filter_concepts S"
proof (rule set_eqI)
  fix x
  show "x \<in> filter_concepts (filter_concepts S) \<longleftrightarrow> x \<in> filter_concepts S"
  proof
    assume "x \<in> filter_concepts (filter_concepts S)"
    then obtain c' where c': "c' \<in> filter_concepts S" "filter_concept c' = Some x"
      by (auto simp: in_filter_concepts)
    from c'(1) obtain c where "c \<in> S" "filter_concept c = Some c'"
      by (auto simp: in_filter_concepts)
    with assms c'(1) have "filter_concept c' = Some c'"
      by (intro filter_concept_fixed) auto
    with c' show "x \<in> filter_concepts S" by simp
  next
    assume x: "x \<in> filter_concepts S"
    then obtain c where "c \<in> S" "filter_concept c = Some x"
      by (auto simp: in_filter_concepts)
    with assms x have "filter_concept x = Some x"
      by (intro filter_concept_fixed) auto
    with x show "x \<in> filter_concepts (filter_concepts S)"
      unfolding in_filter_concepts [of x "filter_concepts S"] by blast
  qed
qed

lemma max_similarity_loop_less:
  "max_similarity_loop e es m < t \<longleftrightarrow> m < t \<and> (\<forall>x\<in>set es. similarity e x < t)"
  by (induction es arbitrary: m) auto

lemma truly_missing_loop_filter:
  assumes "\<forall>p\<in>set ps. fst p < length me \<and> me ! fst p = encode (snd p)"
  shows "truly_missing_loop me ne ps acc =
           Inr (acc @ filter (\<lambda>c. max_similarity_loop (encode c) ne 0 < 0.75) (map snd ps))"
  using assms
proof (induction ps arbitrary: acc)
  case Nil
  then show ?case by simp
next
  case (Cons p rest)
  obtain i c where p: "p = (i, c)" by (cases p)
  from Cons.prems p have i: "i < length me" "me ! i = encode c" by auto
  then have nth: "py_nth me (int i) = Inr (encode c)" by (simp add: py_nth_def)
  have rest: "\<forall>q\<in>set rest. fst q < length me \<and> me ! fst q = encode (snd q)"
    using Cons.prems by simp
  show ?case
    unfolding p by (simp add: nth Let_def Cons.IH [OF rest])
qed

lemma finite_filter_concepts: "finite S \<Longrightarrow> finite (filter_concepts S)"
  by (simp add: filter_concepts_def Option.these_def)

lemma enumerates_setsD:
  "enumerates_sets to_list \<Longrightarrow> finite S \<Longrightarrow> set (to_list S) = S \<and> distinct (to_list S)"
  by (simp add: enumerates_sets_def)

lemma find_missing_concepts_eq:
  assumes en: "enumerates_sets to_list"
    and fl: "finite lecture_concepts" and fn: "finite notes_concepts"
  shows "find_missing_concepts encode to_list lecture_concepts notes_concepts =
     Inr (take 10
       (if filter_concepts notes_concepts = {}
        then to_list (filter_concepts lecture_concepts)
        else filter
          (\<lambda>c. Max ((\<lambda>n. similarity (encode c) (encode n)) ` filter_concepts notes_concepts)
                 < 0.75)
          (to_list (filter_concepts lecture_concepts - filter_concepts notes_concepts))))"
proof -
  let ?L = "filter_concepts lecture_concepts"
  let ?N = "filter_concepts notes_concepts"
  let ?M = "?L - ?N"
  have fL: "finite ?L" and fN: "finite ?N"
    using fl fn by (simp_all add: finite_filter_concepts)
  then have fM: "finite ?M" by simp
  have setM: "set (to_list ?M) = ?M" and setN: "set (to_list ?N) = ?N"
    using enumerates_setsD [OF en fM] enumerates_setsD [OF en fN] by simp_all
  show ?thesis
  proof (cases "?M = {}")
    case True
    from setM have "set (to_list ?M) = {}" by (simp only: True)
    then have empty: "to_list ?M = []" by simp
    have "find_missing_concepts encode to_list lecture_concepts notes_concepts = Inr []"
      by (simp only: find_missing_concepts_def Let_def True) simp
    moreover have "to_list ?L = []" if "?N = {}"
    proof -
      from that have "?M = ?L" by (simp only: Diff_empty)
      with empty show ?thesis by (simp only:)
    qed
    ultimately show ?thesis using empty by simp
  next
    case False
    show ?thesis
    proof (cases "?N = {}")
      case True
      then have "to_list ?N = []" using setN by simp
      then show ?thesis
        using False True by (simp add: find_missing_concepts_def Let_def)
    next
      case nonempty: False
      then have nl: "to_list ?N \<noteq> []" using setN by auto
      let ?me = "embed_batch encode (to_list ?M)"
      let ?ne = "embed_batch encode (to_list ?N)"
      have "\<forall>p\<in>set (enumerate 0 (to_list ?M)).
              fst p < length ?me \<and> ?me ! fst p = encode (snd p)"
        by (auto simp: in_set_enumerate_eq embed_batch_def)
      from truly_missing_loop_filter [OF this, of ?ne "[]"]
      have loop: "truly_missing_loop ?me ?ne (enumerate 0 (to_list ?M)) [] =
          Inr (filter (\<lambda>c. max_similarity_loop (encode c) ?ne 0 < 0.75) (to_list ?M))"
        by simp
      have gate: "max_similarity_loop (encode c) ?ne 0 < 0.75 \<longleftrightarrow>
          Max ((\<lambda>n. similarity (encode c) (encode n)) ` ?N) < 0.75" for c
      proof -
        have "max_similarity_loop (encode c) ?ne 0 < 0.75 \<longleftrightarrow>
            (0::real) < 0.75 \<and> (\<forall>x\<in>set ?ne. similarity (encode c) x < 0.75)"
          by (rule max_similarity_loop_less)
        also have "\<dots> \<longleftrightarrow> (\<forall>n\<in>?N. similarity (encode c) (encode n) < 0.75)"
          by (simp add: embed_batch_def setN)
        also have "\<dots> \<longleftrightarrow> Max ((\<lambda>n. similarity (encode c) (encode n)) ` ?N) < 0.75"
          using fN nonempty by (subst Max_less_iff) auto
        finally show ?thesis .
      qed
      have loop': "truly_missing_loop ?me ?ne (enumerate 0 (to_list ?M)) [] =
          Inr (filter (\<lambda>c. Max ((\<lambda>n. similarity (encode c) (encode n)) ` ?N) < 0.75)
                 (to_list ?M))"
        by (simp only: loop gate)
      show ?thesis
        using False nonempty nl
        by (simp add: find_missing_concepts_def Let_def loop')
    qed
  qed
qed

lemma filter_concept_stripped:
  assumes "filter_concept c = Some c'"
  shows "strip c' = c'"
proof -
  note D = filter_concept_SomeD [OF assms]
  from D have ne: "c' \<noteq> []" using has_letter_run_nonempty by blast
  from D have "strip c \<noteq> []" by simp
  from strip_ends [OF this]
  have "\<not> isspace (hd (strip c))" "\<not> isspace (last (strip c))" by simp_all
  from strip_numbering_ends [OF this] ne D
  have "\<not> isspace (hd c')" "\<not> isspace (last c')" by simp_all
  with ne show ?thesis by (rule strip_fixed)
qed

lemma strip_numbering_shorter:
  "starts_with_numbering s \<Longrightarrow> length (strip_numbering s) < length s"
proof (cases s)
  case Nil
  assume "starts_with_numbering s"
  with Nil show ?thesis by (simp add: starts_with_numbering_def)
next
  case (Cons c cs)
  assume "starts_with_numbering s"
  with Cons have c: "is_numbering_char c" by (simp add: starts_with_numbering_def)
  then have "strip_numbering s = dropWhile isspace (dropWhile is_numbering_char cs)"
    using Cons by (simp add: strip_numbering_def)
  moreover have "length (dropWhile isspace (dropWhile is_numbering_char cs)) \<le> length cs"
    using length_dropWhile_le [of isspace "dropWhile is_numbering_char cs"]
      length_dropWhile_le [of is_numbering_char cs] by linarith
  ultimately show ?thesis using Cons by simp
qed

text \<open>
  A second pass over a filtered concept: the result is the concept with its numbering
  removed, which is the concept itself or a shorter string.
\<close>

lemma filter_concept_second_pass:
  assumes "strip x = x" and "filter_concept x = Some y"
  shows "y = strip_numbering x \<and> length y \<le> length x \<and>
         (length y = length x \<longrightarrow> y = x \<and> \<not> starts_with_numbering x)"
proof -
  from filter_concept_SomeD [OF assms(2)] assms(1)
  have y: "y = strip_numbering x" by simp
  show ?thesis
  proof (cases "starts_with_numbering x")
    case True
    from strip_numbering_shorter [OF this] y show ?thesis by simp
  next
    case False
    from strip_numbering_fixed [OF this] y False show ?thesis by simp
  qed
qed

lemma filter_concepts_fixed_elements:
  assumes fin: "finite F"
    and stripped: "\<forall>x\<in>F. strip x = x"
    and sub: "F \<subseteq> filter_concepts F"
    and x: "x \<in> F"
  shows "filter_concept x = Some x \<and> \<not> starts_with_numbering x"
  using x
proof (induction "Max (length ` F) - length x" arbitrary: x rule: less_induct)
  case less
  from less.prems sub have "x \<in> filter_concepts F" by blast
  then obtain y where y: "y \<in> F" "filter_concept y = Some x"
    unfolding in_filter_concepts by blast
  from stripped y(1) have "strip y = y" by simp
  note second = filter_concept_second_pass [OF this y(2)]
  have bound: "length y \<le> Max (length ` F)"
    using fin y(1) by (intro Max_ge) auto
  have "length x = length y"
  proof (rule ccontr)
    assume "length x \<noteq> length y"
    with second have lt: "length x < length y" by linarith
    with bound have "Max (length ` F) - length y < Max (length ` F) - length x"
      by linarith
    from less.hyps [OF this y(1)] have "filter_concept y = Some y" by simp
    with y(2) have "x = y" by simp
    with lt show False by simp
  qed
  with second have "x = y \<and> \<not> starts_with_numbering y" by blast
  with y(2) show ?case by simp
qed

lemma filter_concepts_idem_only_if:
  assumes "finite S"
    and "filter_concepts (filter_concepts S) = filter_concepts S"
  shows "\<forall>c\<in>filter_concepts S. \<not> starts_with_numbering c"
proof
  fix c assume c: "c \<in> filter_concepts S"
  have "finite (filter_concepts S)" using assms(1) by (rule finite_filter_concepts)
  moreover have "\<forall>x\<in>filter_concepts S. strip x = x"
    by (auto simp: in_filter_concepts dest: filter_concept_stripped)
  moreover have "filter_concepts S \<subseteq> filter_concepts (filter_concepts S)"
    using assms(2) by simp
  ultimately show "\<not> starts_with_numbering c"
    using c filter_concepts_fixed_elements by blast
qed

text \<open>What a second pass does to the elements of a filtered set.\<close>

lemma filter_concepts_second_pass:
  "filter_concepts (filter_concepts S) =
     {strip_numbering c | c. c \<in> filter_concepts S \<and> filter_concept c \<noteq> None}"
proof (rule set_eqI)
  fix y
  have step: "filter_concept c = Some y \<longleftrightarrow> y = strip_numbering c \<and> filter_concept c \<noteq> None"
    if "c \<in> filter_concepts S" for c
  proof -
    from that obtain c0 where "filter_concept c0 = Some c"
      unfolding in_filter_concepts by blast
    then have "strip c = c" by (rule filter_concept_stripped)
    then show ?thesis
      using filter_concept_second_pass [of c] by (cases "filter_concept c") auto
  qed
  have "y \<in> filter_concepts (filter_concepts S) \<longleftrightarrow>
      (\<exists>c\<in>filter_concepts S. filter_concept c = Some y)"
    by (rule in_filter_concepts)
  also have "\<dots> \<longleftrightarrow>
      (\<exists>c\<in>filter_concepts S. y = strip_numbering c \<and> filter_concept c \<noteq> None)"
    using step by blast
  also have "\<dots> \<longleftrightarrow>
      y \<in> {strip_numbering c | c. c \<in> filter_concepts S \<and> filter_concept c \<noteq> None}"
    by blast
  finally show "y \<in> filter_concepts (filter_concepts S) \<longleftrightarrow>
      y \<in> {strip_numbering c | c. c \<in> filter_concepts S \<and> filter_concept c \<noteq> None}" .
qed

section \<open>Concept filter and missing concepts: the claims\<close>

lemma apples_concepts:
  "filter_concept ''1. 2 apples are red'' = Some ''2 apples are red''"
  "filter_concept ''2 apples are red'' = Some ''apples are red''"
  by code_simp+

lemma apples_filtered:
  "filter_concepts {''1. 2 apples are red''} = {''2 apples are red''}"
  "filter_concepts {''2 apples are red''} = {''apples are red''}"
  by (simp_all add: filter_concepts_def apples_concepts)

lemma risk_concepts:
  "filter_concept ''risk score ranges from 1 to 20'' = Some ''risk score ranges from 1 to 20''"
  "filter_concept ''  the system is  '' = None"
  "filter_concept ''model uses data from 21 sources'' = Some ''model uses data from 21 sources''"
  by code_simp+

lemma risk_concepts_filtered:
  "filter_concepts {''risk score ranges from 1 to 20'', ''  the system is  ''} =
     {''risk score ranges from 1 to 20''}"
  by (simp add: filter_concepts_def risk_concepts)

lemma risk_concept_no_numbering:
  "\<not> starts_with_numbering ''risk score ranges from 1 to 20''"
  by code_simp

text \<open>
  C2, as the code has it. The filter removes one leading run of bullet and numbering
  characters (digits, full stop, closing parenthesis, hyphen) with the white space
  after it. Filtering a filtered set returns it unchanged whenever no element of the
  filtered set begins with such a character, and for a finite set only then. In
  general a second pass turns each element of the filtered set into that element
  without its leading run of such characters and the white space after it, and drops
  the element when what remains fails the checks of the filter.
\<close>

theorem filter_concepts_idempotent_without_numbering:
  "((\<forall>c\<in>filter_concepts S. \<not> starts_with_numbering c) \<longrightarrow>
      filter_concepts (filter_concepts S) = filter_concepts S) \<and>
   (finite S \<and> filter_concepts (filter_concepts S) = filter_concepts S \<longrightarrow>
      (\<forall>c\<in>filter_concepts S. \<not> starts_with_numbering c)) \<and>
   filter_concepts (filter_concepts S) =
     {strip_numbering c | c. c \<in> filter_concepts S \<and> filter_concept c \<noteq> None}"
proof (intro conjI impI)
  show "filter_concepts (filter_concepts S) = filter_concepts S"
    if "\<forall>c\<in>filter_concepts S. \<not> starts_with_numbering c"
    using that by (rule filter_concepts_idem)
  show "\<forall>c\<in>filter_concepts S. \<not> starts_with_numbering c"
    if "finite S \<and> filter_concepts (filter_concepts S) = filter_concepts S"
    using that filter_concepts_idem_only_if [of S] by blast
  show "filter_concepts (filter_concepts S) =
     {strip_numbering c | c. c \<in> filter_concepts S \<and> filter_concept c \<noteq> None}"
    by (rule filter_concepts_second_pass)
qed

text \<open>
  The set holding "risk score ranges from 1 to 20" and "  the system is  " filters to the
  first concept alone, which does not begin with a numbering character.
\<close>

theorem filter_concepts_idempotent_without_numbering_witness:
  "finite {''risk score ranges from 1 to 20'', ''  the system is  ''} \<and>
   filter_concepts {''risk score ranges from 1 to 20'', ''  the system is  ''} =
     {''risk score ranges from 1 to 20''} \<and>
   \<not> starts_with_numbering ''risk score ranges from 1 to 20'' \<and>
   filter_concepts (filter_concepts {''risk score ranges from 1 to 20'', ''  the system is  ''}) =
     filter_concepts {''risk score ranges from 1 to 20'', ''  the system is  ''}"
proof -
  let ?S = "{''risk score ranges from 1 to 20'', ''  the system is  ''}"
  note inst = filter_concepts_idempotent_without_numbering [of ?S]
  have h: "\<forall>c\<in>filter_concepts ?S. \<not> starts_with_numbering c"
    unfolding risk_concepts_filtered using risk_concept_no_numbering by simp
  with inst have idem: "filter_concepts (filter_concepts ?S) = filter_concepts ?S"
    by blast
  have fin: "finite ?S" by simp
  with inst idem have "\<forall>c\<in>filter_concepts ?S. \<not> starts_with_numbering c"
    by blast
  then have "\<not> starts_with_numbering ''risk score ranges from 1 to 20''"
    unfolding risk_concepts_filtered by simp
  with fin idem risk_concepts_filtered show ?thesis by simp
qed

text \<open>
  C2 as the specification states it fails on the set holding the one concept
  "1. 2 apples are red": the first pass gives "2 apples are red", and a second pass
  takes the 2 for numbering and gives "apples are red".
\<close>

theorem filter_concepts_not_idempotent_counterexample:
  "filter_concepts {''1. 2 apples are red''} = {''2 apples are red''} \<and>
   filter_concepts (filter_concepts {''1. 2 apples are red''}) = {''apples are red''} \<and>
   filter_concepts (filter_concepts {''1. 2 apples are red''}) \<noteq>
     filter_concepts {''1. 2 apples are red''}"
  unfolding apples_filtered by simp

lemma enumerates_sets_sorted: "enumerates_sets sorted_list_of_set"
  by (simp add: enumerates_sets_def)

lemma witness_concepts_filtered:
  "filter_concepts {''risk score ranges from 1 to 20'', ''model uses data from 21 sources''} =
     {''risk score ranges from 1 to 20'', ''model uses data from 21 sources''}"
  "filter_concepts {''risk score ranges from 1 to 20''} = {''risk score ranges from 1 to 20''}"
  "filter_concepts {''model uses data from 21 sources''} = {''model uses data from 21 sources''}"
  by (simp_all add: filter_concepts_def risk_concepts)

lemma witness_difference:
  "{''risk score ranges from 1 to 20'', ''model uses data from 21 sources''} -
     {''risk score ranges from 1 to 20''} = {''model uses data from 21 sources''}"
  by simp

lemma witness_similarity:
  "similarity (topic_encode ''model uses data from 21 sources'')
     (topic_encode ''risk score ranges from 1 to 20'') = 0"
proof -
  have "topic_encode ''model uses data from 21 sources'' = [0, 1]"
       "topic_encode ''risk score ranges from 1 to 20'' = [1, 0]"
    by code_simp+
  then show ?thesis by (simp add: similarity_def linalg_norm_def dot_def)
qed


text \<open>
  C5. For finite concept sets and any enumeration order of sets: when the filtered
  note-concept set is empty, the result is the first 10 (at most) elements of the
  filtered reference concepts, the similarity gate not being applied; when it is not
  empty, the result is the first 10 (at most) of those candidates of the exact-string
  difference whose maximum similarity to the note concepts is strictly below 0.75, in
  the enumeration order, so that when at most 10 candidates pass the gate a candidate
  is returned exactly when it passes. The result has at most 10 entries, no repetition,
  only elements of the difference, and the function raises nothing.
\<close>

theorem find_missing_concepts_gate:
  assumes "enumerates_sets to_list" and "finite lecture_concepts" and "finite notes_concepts"
  shows
   "(filter_concepts notes_concepts = {} \<longrightarrow>
       find_missing_concepts encode to_list lecture_concepts notes_concepts =
         Inr (take 10 (to_list (filter_concepts lecture_concepts)))) \<and>
    (filter_concepts notes_concepts \<noteq> {} \<longrightarrow>
       find_missing_concepts encode to_list lecture_concepts notes_concepts =
         Inr (take 10 (filter
           (\<lambda>c. Max ((\<lambda>n. similarity (encode c) (encode n)) ` filter_concepts notes_concepts)
                  < 0.75)
           (to_list (filter_concepts lecture_concepts - filter_concepts notes_concepts))))) \<and>
    (\<exists>result. find_missing_concepts encode to_list lecture_concepts notes_concepts = Inr result \<and>
       length result \<le> 10 \<and> distinct result \<and>
       set result \<subseteq> filter_concepts lecture_concepts - filter_concepts notes_concepts \<and>
       (filter_concepts notes_concepts \<noteq> {} \<and>
        card {c \<in> filter_concepts lecture_concepts - filter_concepts notes_concepts.
               Max ((\<lambda>n. similarity (encode c) (encode n)) ` filter_concepts notes_concepts)
                 < 0.75} \<le> 10 \<longrightarrow>
        (\<forall>c\<in>filter_concepts lecture_concepts - filter_concepts notes_concepts.
           c \<in> set result \<longleftrightarrow>
           Max ((\<lambda>n. similarity (encode c) (encode n)) ` filter_concepts notes_concepts)
             < 0.75)))"
proof -
  let ?L = "filter_concepts lecture_concepts"
  let ?N = "filter_concepts notes_concepts"
  let ?M = "?L - ?N"
  let ?gate = "\<lambda>c. Max ((\<lambda>n. similarity (encode c) (encode n)) ` ?N) < 0.75"
  let ?r = "take 10 (if ?N = {} then to_list ?L else filter ?gate (to_list ?M))"
  have eq: "find_missing_concepts encode to_list lecture_concepts notes_concepts = Inr ?r"
    using assms by (rule find_missing_concepts_eq)
  have fM: "finite ?M" using assms(2) by (simp add: finite_filter_concepts)
  have M: "set (to_list ?M) = ?M" "distinct (to_list ?M)"
    using enumerates_setsD [OF assms(1) fM] by simp_all
  show ?thesis
  proof (cases "?N = {}")
    case True
    let ?r = "take 10 (to_list ?L)"
    from eq have r: "find_missing_concepts encode to_list lecture_concepts notes_concepts = Inr ?r"
      unfolding if_P [OF True] .
    from True have "?M = ?L" by (simp only: Diff_empty)
    with M have L: "set (to_list ?L) = ?M" "distinct (to_list ?L)" by (simp_all only:)
    have "length ?r \<le> 10" by simp
    moreover have "distinct ?r" using L(2) by (rule distinct_take)
    moreover have "set ?r \<subseteq> ?M" using set_take_subset [of 10 "to_list ?L"] L(1) by blast
    ultimately show ?thesis using r True by blast
  next
    case False
    let ?r = "take 10 (filter ?gate (to_list ?M))"
    from eq have r: "find_missing_concepts encode to_list lecture_concepts notes_concepts = Inr ?r"
      unfolding if_not_P [OF False] .
    have len: "length ?r \<le> 10" by simp
    have dist: "distinct ?r" using M(2) by (intro distinct_take distinct_filter)
    have "set ?r \<subseteq> set (filter ?gate (to_list ?M))" by (rule set_take_subset)
    also have "\<dots> \<subseteq> ?M" using M(1) by auto
    finally have sub: "set ?r \<subseteq> ?M" .
    have iff: "\<forall>c\<in>?M. c \<in> set ?r \<longleftrightarrow> ?gate c" if few: "card {c \<in> ?M. ?gate c} \<le> 10"
    proof -
      have "{c \<in> ?M. ?gate c} = {c. ?gate c} \<inter> set (to_list ?M)" using M(1) by auto
      then have "length (filter ?gate (to_list ?M)) = card {c \<in> ?M. ?gate c}"
        using distinct_length_filter [OF M(2), of ?gate] by (simp only:)
      with few have "?r = filter ?gate (to_list ?M)" by simp
      then have "set ?r = {c \<in> ?M. ?gate c}" using M(1) by auto
      then show ?thesis by blast
    qed
    from r len dist sub iff False show ?thesis by blast
  qed
qed

text \<open>
  With a reference set of two concepts, one of them also in the notes, and an encoder
  under which the other has similarity 0 to the note concept, that other concept is
  returned; with no note concept at all, the single reference concept is returned.
\<close>

theorem find_missing_concepts_gate_witness:
  "enumerates_sets sorted_list_of_set \<and>
   finite {''risk score ranges from 1 to 20'', ''model uses data from 21 sources''} \<and>
   finite {''risk score ranges from 1 to 20''} \<and>
   filter_concepts {''risk score ranges from 1 to 20''} \<noteq> {} \<and>
   find_missing_concepts topic_encode sorted_list_of_set
     {''risk score ranges from 1 to 20'', ''model uses data from 21 sources''}
     {''risk score ranges from 1 to 20''} = Inr [''model uses data from 21 sources''] \<and>
   filter_concepts {} = {} \<and>
   find_missing_concepts topic_encode sorted_list_of_set
     {''model uses data from 21 sources''} {} = Inr [''model uses data from 21 sources'']"
proof -
  have fe: "filter_concepts {} = {}" by (simp add: filter_concepts_def)
  have a: "find_missing_concepts topic_encode sorted_list_of_set
     {''risk score ranges from 1 to 20'', ''model uses data from 21 sources''}
     {''risk score ranges from 1 to 20''} = Inr [''model uses data from 21 sources'']"
    using find_missing_concepts_gate [OF enumerates_sets_sorted, of
        "{''risk score ranges from 1 to 20'', ''model uses data from 21 sources''}"
        "{''risk score ranges from 1 to 20''}" topic_encode]
    unfolding witness_concepts_filtered witness_difference
    by (simp add: witness_similarity)
  have b: "find_missing_concepts topic_encode sorted_list_of_set
     {''model uses data from 21 sources''} {} = Inr [''model uses data from 21 sources'']"
    using find_missing_concepts_gate [OF enumerates_sets_sorted, of
        "{''model uses data from 21 sources''}" "{}" topic_encode]
    unfolding witness_concepts_filtered fe
    by simp
  from a b fe enumerates_sets_sorted show ?thesis
    unfolding witness_concepts_filtered by simp
qed

section \<open>Degenerate input\<close>

lemma detect_loop_nothing:
  "\<forall>p\<in>set ps. body p = Inr [] \<Longrightarrow> detect_loop body ps acc = Inr acc"
  by (induction ps arbitrary: acc) simp_all

lemma split_into_sentences_empty: "split_into_sentences [] = []"
  by (simp add: split_into_sentences_def re_split_sentences_def strip_def)

lemma detect_empty_notes: "detect use_llm llm encode [] slide_data = Inr []"
  by (simp add: detect_def split_into_sentences_empty enumerate_eq_zip)

lemma detect_no_slides: "detect use_llm llm encode notes_text [] = Inr []"
proof -
  let ?ns = "split_into_sentences notes_text"
  let ?body = "check_note use_llm llm encode [] [] (embed_batch encode ?ns) []"
  have "\<forall>p\<in>set (enumerate 0 ?ns). ?body p = Inr []"
  proof
    fix p assume "p \<in> set (enumerate 0 ?ns)"
    then have "fst p < length (embed_batch encode ?ns)"
      by (simp add: in_set_enumerate_eq embed_batch_def)
    then have "py_nth (embed_batch encode ?ns) (int (fst p)) =
        Inr (embed_batch encode ?ns ! fst p)"
      by (simp add: py_nth_def)
    then show "?body p = Inr []"
      by (cases p) (simp add: check_note_def enumerate_eq_zip)
  qed
  then have "detect_loop ?body (enumerate 0 ?ns) [] = Inr []"
    by (rule detect_loop_nothing)
  then show ?thesis
    by (simp add: detect_def split_into_sentences_empty embed_batch_def)
qed

text \<open>
  C9. On degenerate input every operation returns its empty result and raises nothing:
  concept extraction on an empty or white-space-only text returns the empty set,
  whichever strategy is configured; the coverage estimate is 0 when the store has no
  slides or does not know the identifier; misconception detection returns the empty
  list on empty notes and on an empty slide list.
\<close>

theorem degenerate_input_empty_result:
  "(strip txt = [] \<longrightarrow>
      extract_concepts_from_text use_llm extract_with_llm extract_from_text_fallback txt = {}) \<and>
   find_covered_slides (Some []) notes_embedding = 0 \<and>
   find_covered_slides None notes_embedding = 0 \<and>
   detect use_llm llm encode [] slide_data = Inr [] \<and>
   detect use_llm llm encode notes_text [] = Inr []"
  using detect_empty_notes detect_no_slides
  by (simp add: extract_concepts_from_text_def find_covered_slides_def)

lemma strip_blank: "strip '''' = []" "strip ''   '' = []"
  by code_simp+

theorem degenerate_input_empty_result_witness:
  "strip ''   '' = [] \<and>
   extract_concepts_from_text False single_concept single_concept ''   '' = {} \<and>
   extract_concepts_from_text True single_concept single_concept '''' = {} \<and>
   find_covered_slides (Some []) [1] = 0 \<and>
   find_covered_slides None [1] = 0 \<and>
   detect False no_llm unit_encode [] (one_slide ''The tool is mandatory.'' [1]) = Inr [] \<and>
   detect False no_llm unit_encode ''The tool is not mandatory.'' [] = Inr []"
  using degenerate_input_empty_result [of "''   ''" False single_concept single_concept "[1]"
      no_llm unit_encode "one_slide ''The tool is mandatory.'' [1]"
      "''The tool is not mandatory.''"]
    degenerate_input_empty_result [of "[]" True single_concept single_concept "[1]"
      no_llm unit_encode "[]" "[]"]
    strip_blank
  by simp

end
